theory Spec2Isabelle
  imports Complex_Main
begin

section \<open>Numbers\<close>

text \<open>
  A JavaScript number is an IEEE 754 double: a finite value, negative zero, one of the two
  infinities, or NaN. \<open>Fin x\<close> is the finite double of the real value \<open>x\<close>, and \<open>Fin 0\<close> is
  the positive zero. Every arithmetic result is the exact real result rounded to the
  nearest double, a tie going to the even significand; it overflows to an infinity and
  underflows through the subnormal numbers to a zero, which keeps the sign.
\<close>

datatype jsnum = Fin real | NZero | PInf | NInf | NaN

text \<open>The nearest integer to a real, a tie going to the even one.\<close>

definition round_even :: "real \<Rightarrow> int" where
  "round_even r =
     (if r - of_int \<lfloor>r\<rfloor> < 1 / 2 then \<lfloor>r\<rfloor>
      else if 1 / 2 < r - of_int \<lfloor>r\<rfloor> then \<lfloor>r\<rfloor> + 1
      else if even \<lfloor>r\<rfloor> then \<lfloor>r\<rfloor> else \<lfloor>r\<rfloor> + 1)"

text \<open>
  The exponent of a magnitude \<open>a\<close>: the greatest \<open>e\<close> from -1022 to 1025 with
  \<open>2^e \<le> a\<close>, and -1022 for the subnormal magnitudes below \<open>2^-1022\<close>. It is found by
  bisection: \<open>expo ks lo a\<close> adds to \<open>lo\<close> each step \<open>k\<close> of \<open>ks\<close> that keeps \<open>2^(lo + k) \<le> a\<close>.
\<close>

fun expo :: "int list \<Rightarrow> int \<Rightarrow> real \<Rightarrow> int" where
  "expo [] lo a = lo"
| "expo (k # ks) lo a = (if 2 powi (lo + k) \<le> a then expo ks (lo + k) a else expo ks lo a)"

definition exponent :: "real \<Rightarrow> int" where
  "exponent a = expo [1024, 512, 256, 128, 64, 32, 16, 8, 4, 2, 1] (- 1022) a"

text \<open>
  A magnitude rounded to 53 significant bits: the doubles around \<open>a\<close> are the multiples of
  \<open>2^(exponent a - 52)\<close>.
\<close>

definition rnd :: "real \<Rightarrow> real" where
  "rnd a = of_int (round_even (a / 2 powi (exponent a - 52))) * 2 powi (exponent a - 52)"

text \<open>
  From \<open>2^1024 - 2^970\<close> on, half way between the greatest double and \<open>2^1024\<close>, a magnitude
  rounds to infinity.
\<close>

definition overflow_bound :: real where
  "overflow_bound = 2 ^ 1024 - 2 ^ 970"

text \<open>The double of a sign and a magnitude.\<close>

definition to_double :: "bool \<Rightarrow> real \<Rightarrow> jsnum" where
  "to_double neg a =
     (if overflow_bound \<le> a then (if neg then NInf else PInf)
      else if rnd a = 0 then (if neg then NZero else Fin 0)
      else Fin (if neg then - rnd a else rnd a))"

text \<open>The Number value of a real: the nearest double.\<close>

definition num_of_real :: "real \<Rightarrow> jsnum" where
  "num_of_real v = to_double (v < 0) \<bar>v\<bar>"

text \<open>
  A real is representable when it is the value of a finite double: it is below the
  overflow bound and rounding leaves it as it is. The properties of a \<^verbatim>\<open>number\<close> that the
  program holds are stated under it.
\<close>

definition representable :: "real \<Rightarrow> bool" where
  "representable x = (\<bar>x\<bar> < overflow_bound \<and> rnd \<bar>x\<bar> = \<bar>x\<bar>)"

text \<open>The sign bit, the magnitude and the value of a number that is not NaN.\<close>

fun is_neg :: "jsnum \<Rightarrow> bool" where
  "is_neg (Fin x) = (x < 0)"
| "is_neg NZero = True"
| "is_neg PInf = False"
| "is_neg NInf = True"
| "is_neg NaN = False"

fun mag :: "jsnum \<Rightarrow> real" where
  "mag (Fin x) = \<bar>x\<bar>"
| "mag NZero = 0"
| "mag PInf = 0"
| "mag NInf = 0"
| "mag NaN = 0"

fun val_of :: "jsnum \<Rightarrow> real" where
  "val_of (Fin x) = x"
| "val_of NZero = 0"
| "val_of PInf = 0"
| "val_of NInf = 0"
| "val_of NaN = 0"

fun is_inf :: "jsnum \<Rightarrow> bool" where
  "is_inf (Fin x) = False"
| "is_inf NZero = False"
| "is_inf PInf = True"
| "is_inf NInf = True"
| "is_inf NaN = False"

fun is_zero :: "jsnum \<Rightarrow> bool" where
  "is_zero (Fin x) = (x = 0)"
| "is_zero NZero = True"
| "is_zero PInf = False"
| "is_zero NInf = False"
| "is_zero NaN = False"

definition infinity :: "bool \<Rightarrow> jsnum" where
  "infinity neg = (if neg then NInf else PInf)"

text \<open>\<^verbatim>\<open>Number.isFinite(x)\<close>\<close>

fun isFinite :: "jsnum \<Rightarrow> bool" where
  "isFinite (Fin x) = True"
| "isFinite NZero = True"
| "isFinite PInf = False"
| "isFinite NInf = False"
| "isFinite NaN = False"

text \<open>The truth value of a number in a condition: the zeros and \<^verbatim>\<open>NaN\<close> are falsy.\<close>

fun truthy :: "jsnum \<Rightarrow> bool" where
  "truthy (Fin x) = (x \<noteq> 0)"
| "truthy NZero = False"
| "truthy PInf = True"
| "truthy NInf = True"
| "truthy NaN = False"

text \<open>
  \<^verbatim>\<open>a < b\<close>, \<^verbatim>\<open>a <= b\<close> and \<^verbatim>\<open>a > b\<close>: every comparison with NaN is false, and the two
  zeros are equal.
\<close>

definition js_lt :: "jsnum \<Rightarrow> jsnum \<Rightarrow> bool" where
  "js_lt a b =
     (a \<noteq> NaN \<and> b \<noteq> NaN \<and>
      (if a = NInf then b \<noteq> NInf
       else if a = PInf then False
       else if b = PInf then True
       else if b = NInf then False
       else val_of a < val_of b))"

definition js_le :: "jsnum \<Rightarrow> jsnum \<Rightarrow> bool" where
  "js_le a b =
     (a \<noteq> NaN \<and> b \<noteq> NaN \<and>
      (if a = NInf then True
       else if a = PInf then b = PInf
       else if b = PInf then True
       else if b = NInf then False
       else val_of a \<le> val_of b))"

definition js_gt :: "jsnum \<Rightarrow> jsnum \<Rightarrow> bool" where
  "js_gt a b = js_lt b a"

text \<open>
  \<^verbatim>\<open>a * b\<close>: NaN when an operand is NaN or an infinity meets a zero; the sign is the
  exclusive or of the signs.
\<close>

definition js_mul :: "jsnum \<Rightarrow> jsnum \<Rightarrow> jsnum" where
  "js_mul a b =
     (if a = NaN \<or> b = NaN then NaN
      else if is_inf a \<or> is_inf b
      then (if is_zero a \<or> is_zero b then NaN else infinity (is_neg a \<noteq> is_neg b))
      else to_double (is_neg a \<noteq> is_neg b) (mag a * mag b))"

text \<open>
  \<^verbatim>\<open>a / b\<close>: NaN for an operand NaN, for two infinities and for two zeros; a division by
  an infinity gives a zero, and a division by a zero an infinity, each with the sign of
  the quotient.
\<close>

definition js_div :: "jsnum \<Rightarrow> jsnum \<Rightarrow> jsnum" where
  "js_div a b =
     (if a = NaN \<or> b = NaN then NaN
      else if is_inf a then (if is_inf b then NaN else infinity (is_neg a \<noteq> is_neg b))
      else if is_inf b then to_double (is_neg a \<noteq> is_neg b) 0
      else if is_zero b then (if is_zero a then NaN else infinity (is_neg a \<noteq> is_neg b))
      else to_double (is_neg a \<noteq> is_neg b) (mag a / mag b))"

text \<open>
  \<^verbatim>\<open>a - b\<close>: NaN for an operand NaN and for two infinities of one sign. An exact zero
  is the positive zero, but for the negative zero minus the positive zero.
\<close>

definition js_sub :: "jsnum \<Rightarrow> jsnum \<Rightarrow> jsnum" where
  "js_sub a b =
     (if a = NaN \<or> b = NaN then NaN
      else if is_inf a then (if is_inf b \<and> is_neg a = is_neg b then NaN else a)
      else if is_inf b then infinity (\<not> is_neg b)
      else if val_of a - val_of b = 0 then (if a = NZero \<and> b = Fin 0 then NZero else Fin 0)
      else to_double (val_of a - val_of b < 0) \<bar>val_of a - val_of b\<bar>)"

text \<open>
  \<^verbatim>\<open>Math.round(x)\<close>: the nearest integer, a tie going towards plus infinity, which is
  \<open>\<lfloor>x + 1/2\<rfloor>\<close>; from -0.5 to the negative zero the result is the negative zero; the
  infinities and NaN are returned as they are.
\<close>

fun Math_round :: "jsnum \<Rightarrow> jsnum" where
  "Math_round (Fin x) = (if x < 0 \<and> \<lfloor>x + 1 / 2\<rfloor> = 0 then NZero else Fin (of_int \<lfloor>x + 1 / 2\<rfloor>))"
| "Math_round NZero = NZero"
| "Math_round PInf = PInf"
| "Math_round NInf = NInf"
| "Math_round NaN = NaN"

text \<open>An optional number: a missing property reads as \<^verbatim>\<open>undefined\<close>, which is falsy
  and becomes NaN in arithmetic.\<close>

fun truthy_opt :: "jsnum option \<Rightarrow> bool" where
  "truthy_opt None = False"
| "truthy_opt (Some x) = truthy x"

fun num_of :: "jsnum option \<Rightarrow> jsnum" where
  "num_of None = NaN"
| "num_of (Some x) = x"

section \<open>Data model (types.ts)\<close>

record SVGDimensions =
  width :: jsnum
  height :: jsnum

text \<open>
  The options objects. \<^verbatim>\<open>calculateDimensions\<close> takes \<^verbatim>\<open>{width?, height?, scale?}\<close>,
  \<^verbatim>\<open>validateOptions\<close> takes these with \<^verbatim>\<open>quality?\<close>, and \<^verbatim>\<open>ConversionOptions\<close> has the
  paths and the background besides; an object with more properties is accepted where
  fewer are asked for, as a record extension is. An optional property that is missing is
  \<open>None\<close>.
\<close>

record dim_options =
  o_width :: "jsnum option"
  o_height :: "jsnum option"
  o_scale :: "jsnum option"

record quality_options = dim_options +
  o_quality :: "jsnum option"

record ConversionOptions = quality_options +
  inputPath :: string
  outputPath :: "string option"
  background :: "string option"

text \<open>
  Every \<^verbatim>\<open>new Error(message)\<close> of the program is a constructor, which stands for its
  message; \<open>External\<close> is an error raised by the file system or the browser.
\<close>

datatype js_error =
    InputNotFound string
  | InputNotReadable string
  | InputNotSVG string
  | InvalidWidth jsnum
  | InvalidHeight jsnum
  | InvalidScale jsnum
  | InvalidQuality jsnum
  | DimensionsUnavailable
  | InvalidBackground string
  | External string

record ConversionResult =
  success :: bool
  r_outputPath :: string
  dimensions :: SVGDimensions
  error :: "js_error option"

section \<open>calculateDimensions (utils.ts)\<close>

definition calculateDimensions :: "SVGDimensions \<Rightarrow> dim_options \<Rightarrow> SVGDimensions" where
  "calculateDimensions intrinsic options =
     (let scale = (if truthy_opt (o_scale options) then num_of (o_scale options) else Fin 1) in
      if truthy_opt (o_width options) \<and> truthy_opt (o_height options) then
        (let targetAspect = js_div (num_of (o_width options)) (num_of (o_height options));
             intrinsicAspect = js_div (width intrinsic) (height intrinsic);
             (finalWidth, finalHeight) =
               (if js_gt intrinsicAspect targetAspect
                then (num_of (o_width options), js_div (num_of (o_width options)) intrinsicAspect)
                else (js_mul (num_of (o_height options)) intrinsicAspect, num_of (o_height options)))
         in \<lparr>width = Math_round (js_mul finalWidth scale),
             height = Math_round (js_mul finalHeight scale)\<rparr>)
      else if truthy_opt (o_width options) then
        (let aspectRatio = js_div (height intrinsic) (width intrinsic)
         in \<lparr>width = Math_round (js_mul (num_of (o_width options)) scale),
             height = Math_round (js_mul (js_mul (num_of (o_width options)) aspectRatio) scale)\<rparr>)
      else if truthy_opt (o_height options) then
        (let aspectRatio = js_div (width intrinsic) (height intrinsic)
         in \<lparr>width = Math_round (js_mul (js_mul (num_of (o_height options)) aspectRatio) scale),
             height = Math_round (js_mul (num_of (o_height options)) scale)\<rparr>)
      else
        \<lparr>width = Math_round (js_mul (width intrinsic) scale),
         height = Math_round (js_mul (height intrinsic) scale)\<rparr>)"

section \<open>Strings and regular expressions\<close>

text \<open>
  A string is the list of its code units, here the units below 256, and a character is
  looked at through its code \<open>of_char c\<close>. White space is what \<^verbatim>\<open>\s\<close> and the trimming of
  \<^verbatim>\<open>parseFloat\<close> accept below 256: tab, line feed, vertical tab, form feed, carriage
  return, space and the no-break space.
\<close>

definition is_space :: "nat \<Rightarrow> bool" where
  "is_space n = (n \<in> {9, 10, 11, 12, 13, 32, 160})"

definition is_digit :: "nat \<Rightarrow> bool" where
  "is_digit n = (48 \<le> n \<and> n \<le> 57)"

text \<open>The other case of an ASCII letter; every other code is left alone.\<close>

definition other_case :: "nat \<Rightarrow> nat" where
  "other_case n = (if 97 \<le> n \<and> n \<le> 122 then n - 32
                   else if 65 \<le> n \<and> n \<le> 90 then n + 32 else n)"

text \<open>
  The members of a character class: a character, a range \<^verbatim>\<open>a-z\<close>, \<^verbatim>\<open>\s\<close>, \<^verbatim>\<open>\d\<close>.
\<close>

datatype citem = CChar char | CRange char char | CSpace | CDigit

fun item_has :: "citem \<Rightarrow> nat \<Rightarrow> bool" where
  "item_has (CChar a) n = (of_char a = n)"
| "item_has (CRange lo hi) n = (of_char lo \<le> n \<and> n \<le> of_char hi)"
| "item_has CSpace n = is_space n"
| "item_has CDigit n = is_digit n"

text \<open>
  Whether a character belongs to a set of class members; under the flag \<^verbatim>\<open>i\<close> it also
  belongs when its other case does. The sets of this program hold ASCII members only, for
  which this is the canonicalisation of the language.
\<close>

definition set_has :: "bool \<Rightarrow> citem list \<Rightarrow> char \<Rightarrow> bool" where
  "set_has ic items c =
     (\<exists>it \<in> set items. item_has it (of_char c) \<or> (ic \<and> item_has it (other_case (of_char c))))"

text \<open>
  The regular expressions of the program: a literal string, a class \<^verbatim>\<open>[...]\<close> (negated
  when the flag is set), sequence, alternative, the greedy quantifiers \<^verbatim>\<open>?\<close>, \<^verbatim>\<open>+\<close> and
  \<^verbatim>\<open>{lo,hi}\<close>, a capturing group with its number, and the assertions \<^verbatim>\<open>^\<close> and \<^verbatim>\<open>$\<close>
  (no flag \<^verbatim>\<open>m\<close>: start and end of the input).
\<close>

datatype regex =
    Str string
  | Cls bool "citem list"
  | Seq regex regex
  | Alt regex regex
  | Opt regex
  | Plus regex
  | Rep nat nat regex
  | Group nat regex
  | Bol
  | Eol

text \<open>
  A matcher state is the index reached, the input that remains, and the captures. A
  matcher returns the states it can end in, in the order in which backtracking tries them:
  the head of the list is the match that is found.
\<close>

type_synonym captures = "nat \<rightharpoonup> string"
type_synonym mstate = "nat \<times> string \<times> captures"

definition one :: "(char \<Rightarrow> bool) \<Rightarrow> mstate \<Rightarrow> mstate list" where
  "one P st = (case st of (i, s, c) \<Rightarrow>
     (case s of [] \<Rightarrow> [] | x # xs \<Rightarrow> if P x then [(Suc i, xs, c)] else []))"

definition lits :: "bool \<Rightarrow> string \<Rightarrow> mstate \<Rightarrow> mstate list" where
  "lits ic w st = (case st of (i, s, c) \<Rightarrow>
     if length w \<le> length s \<and> list_all2 (\<lambda>a x. set_has ic [CChar a] x) w (take (length w) s)
     then [(i + length w, drop (length w) s, c)] else [])"

text \<open>
  Greedy repetition. \<open>rep_opt f n\<close> runs \<open>f\<close> up to \<open>n\<close> more times, the longer attempts
  first; an iteration that consumes nothing is rejected. \<open>rep_min f lo extra\<close> runs \<open>f\<close>
  \<open>lo\<close> times and then up to \<open>extra\<close> times more. For \<^verbatim>\<open>+\<close> the number of further
  iterations is bounded by the length of the input, since each of them consumes a character.
  The captures of a group inside a repetition are not cleared between the iterations: no
  expression of the program repeats a group more than once.
\<close>

primrec rep_opt :: "(mstate \<Rightarrow> mstate list) \<Rightarrow> nat \<Rightarrow> mstate \<Rightarrow> mstate list" where
  "rep_opt f 0 st = [st]"
| "rep_opt f (Suc n) st =
     concat (map (\<lambda>st'. if fst st < fst st' then rep_opt f n st' else []) (f st)) @ [st]"

primrec rep_min :: "(mstate \<Rightarrow> mstate list) \<Rightarrow> nat \<Rightarrow> nat \<Rightarrow> mstate \<Rightarrow> mstate list" where
  "rep_min f 0 extra st = rep_opt f extra st"
| "rep_min f (Suc n) extra st = concat (map (rep_min f n extra) (f st))"

primrec rmatch :: "bool \<Rightarrow> regex \<Rightarrow> mstate \<Rightarrow> mstate list" where
  "rmatch ic (Str w) = lits ic w"
| "rmatch ic (Cls neg items) = one (\<lambda>x. set_has ic items x \<noteq> neg)"
| "rmatch ic (Seq r1 r2) = (\<lambda>st. concat (map (rmatch ic r2) (rmatch ic r1 st)))"
| "rmatch ic (Alt r1 r2) = (\<lambda>st. rmatch ic r1 st @ rmatch ic r2 st)"
| "rmatch ic (Opt r) = rep_min (rmatch ic r) 0 1"
| "rmatch ic (Plus r) = (\<lambda>st. rep_min (rmatch ic r) 1 (length (fst (snd st))) st)"
| "rmatch ic (Rep lo hi r) = rep_min (rmatch ic r) lo (hi - lo)"
| "rmatch ic (Group n r) = (\<lambda>st. map (\<lambda>st'. (fst st', fst (snd st'),
        (snd (snd st'))(n \<mapsto> take (fst st' - fst st) (fst (snd st))))) (rmatch ic r st))"
| "rmatch ic Bol = (\<lambda>st. if fst st = 0 then [st] else [])"
| "rmatch ic Eol = (\<lambda>st. if fst (snd st) = [] then [st] else [])"

text \<open>
  \<^verbatim>\<open>re.exec(s)\<close> without the flag \<^verbatim>\<open>g\<close>: the start positions are tried from the left, and
  the first one where the matcher succeeds gives the match: its start, its end and its
  captures. \<open>exec_from ic r i s\<close> searches the input whose first \<open>i\<close> characters are behind.
\<close>

fun exec_from :: "bool \<Rightarrow> regex \<Rightarrow> nat \<Rightarrow> string \<Rightarrow> (nat \<times> nat \<times> captures) option" where
  "exec_from ic r i [] =
     (case rmatch ic r (i, [], Map.empty) of
        [] \<Rightarrow> None
      | st # _ \<Rightarrow> Some (i, fst st, snd (snd st)))"
| "exec_from ic r i (x # xs) =
     (case rmatch ic r (i, x # xs, Map.empty) of
        [] \<Rightarrow> exec_from ic r (Suc i) xs
      | st # _ \<Rightarrow> Some (i, fst st, snd (snd st)))"

text \<open>\<^verbatim>\<open>s.match(re)\<close>, of which the program reads the captures only.\<close>

definition str_match :: "bool \<Rightarrow> regex \<Rightarrow> string \<Rightarrow> captures option" where
  "str_match ic r s = map_option (\<lambda>m. snd (snd m)) (exec_from ic r 0 s)"

text \<open>\<^verbatim>\<open>re.test(s)\<close>\<close>

definition re_test :: "bool \<Rightarrow> regex \<Rightarrow> string \<Rightarrow> bool" where
  "re_test ic r s = (exec_from ic r 0 s \<noteq> None)"

text \<open>\<^verbatim>\<open>s.replace(re, t)\<close> for a replacement text \<open>t\<close> without \<^verbatim>\<open>$\<close>: the first match is
  replaced.\<close>

definition str_replace :: "bool \<Rightarrow> regex \<Rightarrow> string \<Rightarrow> string \<Rightarrow> string" where
  "str_replace ic r t s =
     (case exec_from ic r 0 s of
        None \<Rightarrow> s
      | Some m \<Rightarrow> take (fst m) s @ t @ drop (fst (snd m)) s)"

text \<open>
  \<^verbatim>\<open>s.split(re)\<close> for a separator without capturing groups. \<open>split_from ic r acc q s\<close> has
  the current piece, reversed, in \<open>acc\<close> and looks for a separator at the index \<open>q\<close>, where
  \<open>s\<close> remains. Where the separator matches, the piece is closed and the search goes on
  behind the match; a match that is empty closes the piece only when the piece has
  characters, and the search moves on by one character. The last piece is closed at the end
  of the input, so that a separator in front or at the end leaves an empty piece there.
\<close>

function split_from :: "bool \<Rightarrow> regex \<Rightarrow> string \<Rightarrow> nat \<Rightarrow> string \<Rightarrow> string list" where
  "split_from ic r acc q [] = [rev acc]"
| "split_from ic r acc q (x # xs) =
     (case rmatch ic r (q, x # xs, Map.empty) of
        [] \<Rightarrow> split_from ic r (x # acc) (Suc q) xs
      | st # _ \<Rightarrow>
          if fst st \<le> q
          then (if acc = [] then split_from ic r [x] (Suc q) xs
                else rev acc # split_from ic r [x] (Suc q) xs)
          else rev acc # split_from ic r [] (fst st) (drop (fst st - q) (x # xs)))"
  by pat_completeness auto
termination
  by (relation "measure (\<lambda>(ic, r, acc, q, s). length s)") auto

definition str_split :: "bool \<Rightarrow> regex \<Rightarrow> string \<Rightarrow> string list" where
  "str_split ic r s =
     (if s = [] then (if rmatch ic r (0, [], Map.empty) = [] then [[]] else [])
      else split_from ic r [] 0 s)"

section \<open>parseFloat\<close>

text \<open>
  A decimal literal has an exact value, and \<^verbatim>\<open>parseFloat\<close> returns the Number value of
  it: the nearest double.
\<close>

definition digits_of :: "string \<Rightarrow> string" where
  "digits_of s = takeWhile (\<lambda>c. is_digit (of_char c)) s"

definition after_digits :: "string \<Rightarrow> string" where
  "after_digits s = dropWhile (\<lambda>c. is_digit (of_char c)) s"

definition dec_value :: "string \<Rightarrow> nat" where
  "dec_value ds = foldl (\<lambda>a c. 10 * a + (of_char c - 48)) 0 ds"

text \<open>The exponent part \<^verbatim>\<open>e\<close>, \<^verbatim>\<open>e+\<close> or \<^verbatim>\<open>e-\<close> with digits; anything else is no exponent.\<close>

definition exponent_of :: "string \<Rightarrow> int" where
  "exponent_of s =
     (case s of
        [] \<Rightarrow> 0
      | e # r \<Rightarrow>
          if e = CHR ''e'' \<or> e = CHR ''E'' then
            (case r of
               [] \<Rightarrow> 0
             | g # ds \<Rightarrow>
                 if g = CHR ''+'' then (if digits_of ds = [] then 0 else int (dec_value (digits_of ds)))
                 else if g = CHR ''-'' then (if digits_of ds = [] then 0 else - int (dec_value (digits_of ds)))
                 else if digits_of r = [] then 0 else int (dec_value (digits_of r)))
          else 0)"

definition scale10 :: "real \<Rightarrow> int \<Rightarrow> real" where
  "scale10 v e = (if 0 \<le> e then v * 10 ^ nat e else v / 10 ^ nat (- e))"

text \<open>
  The longest prefix that is an unsigned literal: \<^verbatim>\<open>Infinity\<close>, or digits with an
  optional fraction, or a point followed by digits, each with an optional exponent. No such
  prefix gives \<open>None\<close>. The result is the double nearest to the value of the literal.
\<close>

definition unsigned_literal :: "string \<Rightarrow> jsnum option" where
  "unsigned_literal s =
     (if take 8 s = ''Infinity'' then Some PInf
      else
        (let ip = digits_of s;
             r1 = after_digits s;
             fp = (case r1 of [] \<Rightarrow> [] | d # r \<Rightarrow> if d = CHR ''.'' then digits_of r else []);
             r2 = (case r1 of [] \<Rightarrow> [] | d # r \<Rightarrow> if d = CHR ''.'' then after_digits r else r1)
         in if ip = [] \<and> fp = [] then None
            else Some (num_of_real (scale10
                   (real (dec_value ip) + real (dec_value fp) / 10 ^ length fp)
                   (exponent_of r2)))))"

definition js_neg :: "jsnum \<Rightarrow> jsnum" where
  "js_neg a =
     (case a of
        Fin x \<Rightarrow> if x = 0 then NZero else Fin (- x)
      | NZero \<Rightarrow> Fin 0
      | PInf \<Rightarrow> NInf
      | NInf \<Rightarrow> PInf
      | NaN \<Rightarrow> NaN)"

text \<open>\<^verbatim>\<open>parseFloat(s)\<close>: leading white space is dropped, a sign is read, and the longest
  literal prefix is the value; NaN when there is none.\<close>

definition parseFloat :: "string \<Rightarrow> jsnum" where
  "parseFloat s =
     (let t = dropWhile (\<lambda>c. is_space (of_char c)) s in
      case t of
        [] \<Rightarrow> NaN
      | g # r \<Rightarrow>
          if g = CHR ''-'' then (case unsigned_literal r of None \<Rightarrow> NaN | Some v \<Rightarrow> js_neg v)
          else if g = CHR ''+'' then (case unsigned_literal r of None \<Rightarrow> NaN | Some v \<Rightarrow> v)
          else (case unsigned_literal t of None \<Rightarrow> NaN | Some v \<Rightarrow> v))"

section \<open>The regular expressions of utils.ts\<close>

definition quote :: regex where
  "quote = Cls False [CChar (CHR 0x22), CChar (CHR 0x27)]"

definition units :: regex where
  "units = Alt (Str ''px'') (Alt (Str ''pt'') (Alt (Str ''pc'')
             (Alt (Str ''in'') (Alt (Str ''cm'') (Str ''mm'')))))"

text \<open>The numeral \<^verbatim>\<open>\d+(?:\.\d+)?\<close>.\<close>

definition numeral_re :: regex where
  "numeral_re = Seq (Plus (Cls False [CDigit])) (Opt (Seq (Str ''.'') (Plus (Cls False [CDigit]))))"

text \<open>
  \<^verbatim>\<open>/\swidth=["'](\d+(?:\.\d+)?)(px|pt|pc|in|cm|mm)?["']/i\<close> and the same for
  \<^verbatim>\<open>height\<close>, with the name of the attribute as the parameter.
\<close>

definition attr_re :: "string \<Rightarrow> regex" where
  "attr_re name =
     Seq (Cls False [CSpace]) (Seq (Str name) (Seq (Str ''='') (Seq quote
       (Seq (Group 1 numeral_re) (Seq (Opt (Group 2 units)) quote)))))"

text \<open>\<^verbatim>\<open>/viewBox=["']([^"']+)["']/i\<close>\<close>

definition viewBox_re :: regex where
  "viewBox_re =
     Seq (Str ''viewBox='') (Seq quote
       (Seq (Group 1 (Plus (Cls True [CChar (CHR 0x22), CChar (CHR 0x27)]))) quote))"

text \<open>\<^verbatim>\<open>/[\s,]+/\<close>\<close>

definition separator_re :: regex where
  "separator_re = Plus (Cls False [CSpace, CChar CHR '',''])"

text \<open>\<^verbatim>\<open>/\.svg$/i\<close>\<close>

definition svg_ext_re :: regex where
  "svg_ext_re = Seq (Str ''.svg'') Eol"

text \<open>\<^verbatim>\<open>/^(#[0-9a-f]{3,8}|rgba?\([^)]+\)|[a-z]+)$/i\<close>\<close>

definition validColorPattern :: regex where
  "validColorPattern =
     Seq Bol (Seq (Group 1
       (Alt (Seq (Str ''#'') (Rep 3 8 (Cls False [CRange CHR ''0'' CHR ''9'', CRange CHR ''a'' CHR ''f''])))
       (Alt (Seq (Str ''rgb'') (Seq (Opt (Str ''a'')) (Seq (Str ''('')
               (Seq (Plus (Cls True [CChar CHR '')''])) (Str '')'')))))
            (Plus (Cls False [CRange CHR ''a'' CHR ''z'']))))) Eol)"

section \<open>parseSVGDimensions (utils.ts)\<close>

text \<open>
  What \<^verbatim>\<open>parseSVGDimensions\<close> does with the text of the file: the two attribute matches,
  then the viewBox, then the error.
\<close>

definition dimensions_of_text :: "string \<Rightarrow> js_error + SVGDimensions" where
  "dimensions_of_text svgContent =
     (let widthMatch = str_match True (attr_re ''width'') svgContent;
          heightMatch = str_match True (attr_re ''height'') svgContent
      in case (widthMatch, heightMatch) of
           (Some wm, Some hm) \<Rightarrow>
             Inr \<lparr>width = parseFloat (case wm 1 of None \<Rightarrow> [] | Some g \<Rightarrow> g),
                  height = parseFloat (case hm 1 of None \<Rightarrow> [] | Some g \<Rightarrow> g)\<rparr>
         | _ \<Rightarrow>
             (case str_match True viewBox_re svgContent of
                Some vm \<Rightarrow>
                  (let values = map parseFloat
                         (str_split False separator_re (case vm 1 of None \<Rightarrow> [] | Some g \<Rightarrow> g))
                   in if length values = 4
                      then Inr \<lparr>width = js_sub (values ! 2) (values ! 0),
                                height = js_sub (values ! 3) (values ! 1)\<rparr>
                      else Inl DimensionsUnavailable)
              | None \<Rightarrow> Inl DimensionsUnavailable))"

text \<open>The file is read first; a failure to read it is the failure of the call.\<close>

definition parseSVGDimensions :: "(string \<Rightarrow> js_error + string) \<Rightarrow> string \<Rightarrow> js_error + SVGDimensions" where
  "parseSVGDimensions readFile svgPath =
     (case readFile svgPath of
        Inl e \<Rightarrow> Inl e
      | Inr svgContent \<Rightarrow> dimensions_of_text svgContent)"

section \<open>validateInputFile, validateOptions, generateOutputPath, normalizeBackgroundColor (utils.ts)\<close>

text \<open>
  \<^verbatim>\<open>s.toLowerCase()\<close> on the ASCII letters; the program compares the result with ASCII
  text only, which no other character is lowered to.
\<close>

definition lower_char :: "char \<Rightarrow> char" where
  "lower_char c = (if 65 \<le> (of_char c :: nat) \<and> (of_char c :: nat) \<le> 90
                   then char_of (of_char c + 32 :: nat) else c)"

definition toLowerCase :: "string \<Rightarrow> string" where
  "toLowerCase s = map lower_char s"

definition endsWith :: "string \<Rightarrow> string \<Rightarrow> bool" where
  "endsWith s t = (length t \<le> length s \<and> drop (length s - length t) s = t)"

text \<open>
  The file system is a parameter: \<open>existsSync\<close> tells whether a path exists and
  \<open>readable\<close> whether \<^verbatim>\<open>accessSync(path, R_OK)\<close> returns.
\<close>

definition validateInputFile :: "(string \<Rightarrow> bool) \<Rightarrow> (string \<Rightarrow> bool) \<Rightarrow> string \<Rightarrow> js_error + unit" where
  "validateInputFile existsSync readable filePath =
     (if \<not> existsSync filePath then Inl (InputNotFound filePath)
      else if \<not> readable filePath then Inl (InputNotReadable filePath)
      else if \<not> endsWith (toLowerCase filePath) ''.svg'' then Inl (InputNotSVG filePath)
      else Inr ())"

definition validateOptions :: "'a quality_options_scheme \<Rightarrow> js_error + unit" where
  "validateOptions options =
     (if o_width options \<noteq> None \<and>
         (js_le (num_of (o_width options)) (Fin 0) \<or> \<not> isFinite (num_of (o_width options)))
      then Inl (InvalidWidth (num_of (o_width options)))
      else if o_height options \<noteq> None \<and>
         (js_le (num_of (o_height options)) (Fin 0) \<or> \<not> isFinite (num_of (o_height options)))
      then Inl (InvalidHeight (num_of (o_height options)))
      else if o_scale options \<noteq> None \<and>
         (js_le (num_of (o_scale options)) (Fin 0) \<or> \<not> isFinite (num_of (o_scale options)))
      then Inl (InvalidScale (num_of (o_scale options)))
      else if o_quality options \<noteq> None \<and>
         (js_lt (num_of (o_quality options)) (Fin 0) \<or> js_gt (num_of (o_quality options)) (Fin 100))
      then Inl (InvalidQuality (num_of (o_quality options)))
      else Inr ())"

text \<open>A string in a condition: missing and empty are falsy.\<close>

fun truthy_str :: "string option \<Rightarrow> bool" where
  "truthy_str None = False"
| "truthy_str (Some s) = (s \<noteq> [])"

fun str_of :: "string option \<Rightarrow> string" where
  "str_of None = []"
| "str_of (Some s) = s"

definition generateOutputPath :: "string \<Rightarrow> string option \<Rightarrow> string" where
  "generateOutputPath input output =
     (if truthy_str output then str_of output
      else str_replace True svg_ext_re ''.png'' input)"

definition normalizeBackgroundColor :: "string option \<Rightarrow> js_error + string" where
  "normalizeBackgroundColor bg =
     (if \<not> truthy_str bg \<or> bg = Some ''transparent'' then Inr ''transparent''
      else if \<not> re_test True validColorPattern (str_of bg)
      then Inl (InvalidBackground (str_of bg))
      else Inr (str_of bg))"

section \<open>SVGConverter.convert (converter.ts)\<close>

text \<open>
  What lies outside the program is a parameter of the conversion: the file system, and the
  two methods that drive the browser, \<^verbatim>\<open>getDimensionsFromBrowser\<close> and
  \<^verbatim>\<open>convertWithPuppeteer\<close>, each of which returns or raises.
\<close>

record world =
  existsSync :: "string \<Rightarrow> bool"
  readable :: "string \<Rightarrow> bool"
  readFile :: "string \<Rightarrow> js_error + string"
  getDimensionsFromBrowser :: "string \<Rightarrow> js_error + SVGDimensions"
  convertWithPuppeteer ::
    "string \<Rightarrow> string \<Rightarrow> SVGDimensions \<Rightarrow> string \<Rightarrow> jsnum option \<Rightarrow> js_error + unit"

text \<open>A statement that may raise, followed by the rest of the block.\<close>

definition and_then :: "js_error + 'a \<Rightarrow> ('a \<Rightarrow> js_error + 'b) \<Rightarrow> js_error + 'b" where
  "and_then m f = (case m of Inl e \<Rightarrow> Inl e | Inr x \<Rightarrow> f x)"

text \<open>The inner \<^verbatim>\<open>try\<close>: when the text gives no size, the browser is asked.\<close>

definition intrinsic_dimensions :: "world \<Rightarrow> string \<Rightarrow> js_error + SVGDimensions" where
  "intrinsic_dimensions w path =
     (case parseSVGDimensions (readFile w) path of
        Inr d \<Rightarrow> Inr d
      | Inl e \<Rightarrow> getDimensionsFromBrowser w path)"

text \<open>The body of the outer \<^verbatim>\<open>try\<close>: it returns the output path and the final size, or raises.\<close>

definition convert_body :: "world \<Rightarrow> ConversionOptions \<Rightarrow> js_error + string \<times> SVGDimensions" where
  "convert_body w options =
     and_then (validateInputFile (existsSync w) (readable w) (inputPath options)) (\<lambda>_.
     and_then (validateOptions options) (\<lambda>_.
       let out = generateOutputPath (inputPath options) (outputPath options) in
     and_then (intrinsic_dimensions w (inputPath options)) (\<lambda>intrinsicDimensions.
       let finalDimensions = calculateDimensions intrinsicDimensions
             \<lparr>o_width = o_width options, o_height = o_height options, o_scale = o_scale options\<rparr> in
     and_then (normalizeBackgroundColor (background options)) (\<lambda>backgroundColor.
     and_then (convertWithPuppeteer w (inputPath options) out finalDimensions backgroundColor
                 (o_quality options)) (\<lambda>_.
       Inr (out, finalDimensions))))))"

definition convert :: "world \<Rightarrow> ConversionOptions \<Rightarrow> ConversionResult" where
  "convert w options =
     (case convert_body w options of
        Inr (out, finalDimensions) \<Rightarrow>
          \<lparr>success = True, r_outputPath = out, dimensions = finalDimensions, error = None\<rparr>
      | Inl e \<Rightarrow>
          \<lparr>success = False, r_outputPath = str_of (outputPath options),
           dimensions = \<lparr>width = Fin 0, height = Fin 0\<rparr>, error = Some e\<rparr>)"

section \<open>The conditions of the specification\<close>

text \<open>
  The option validator, in the words of the specification: a width, height or scale that
  is present is bad when it is \<open>\<le> 0\<close> or not finite, and a quality that is present is bad
  when it is \<open>< 0\<close> or \<open>> 100\<close>.
\<close>

definition bad_positive :: "jsnum option \<Rightarrow> bool" where
  "bad_positive v = (case v of None \<Rightarrow> False | Some (Fin x) \<Rightarrow> x \<le> 0 | Some _ \<Rightarrow> True)"

definition bad_quality :: "jsnum option \<Rightarrow> bool" where
  "bad_quality v = (case v of None \<Rightarrow> False | Some (Fin x) \<Rightarrow> x < 0 \<or> 100 < x
                    | Some NZero \<Rightarrow> False
                    | Some PInf \<Rightarrow> True | Some NInf \<Rightarrow> True | Some NaN \<Rightarrow> False)"

text \<open>
  The background normalizer, in the words of the specification: a hex colour is \<^verbatim>\<open>#\<close> and
  3 to 8 hex digits; an rgb function is \<^verbatim>\<open>rgb\<close> or \<^verbatim>\<open>rgba\<close>, in either case of the letters,
  and a parenthesis that closes at the end of the string around a non-empty text without
  \<^verbatim>\<open>)\<close>; a named colour is a non-empty string of letters.
\<close>

definition is_hex_digit :: "nat \<Rightarrow> bool" where
  "is_hex_digit n = (48 \<le> n \<and> n \<le> 57 \<or> 97 \<le> n \<and> n \<le> 102 \<or> 65 \<le> n \<and> n \<le> 70)"

definition is_letter :: "nat \<Rightarrow> bool" where
  "is_letter n = (97 \<le> n \<and> n \<le> 122 \<or> 65 \<le> n \<and> n \<le> 90)"

definition hex_color :: "string \<Rightarrow> bool" where
  "hex_color s = (case s of [] \<Rightarrow> False | h # ds \<Rightarrow>
     h = CHR ''#'' \<and> 3 \<le> length ds \<and> length ds \<le> 8 \<and> list_all (\<lambda>c. is_hex_digit (of_char c)) ds)"

definition paren_body :: "string \<Rightarrow> bool" where
  "paren_body r = (case r of [] \<Rightarrow> False | p # b \<Rightarrow>
     p = CHR ''('' \<and> b \<noteq> [] \<and> last b = CHR '')'' \<and> butlast b \<noteq> [] \<and>
     list_all (\<lambda>c. c \<noteq> CHR '')'') (butlast b))"

definition rgb_function :: "string \<Rightarrow> bool" where
  "rgb_function s =
     (toLowerCase (take 3 s) = ''rgb'' \<and> paren_body (drop 3 s) \<or>
      toLowerCase (take 4 s) = ''rgba'' \<and> paren_body (drop 4 s))"

definition named_color :: "string \<Rightarrow> bool" where
  "named_color s = (s \<noteq> [] \<and> list_all (\<lambda>c. is_letter (of_char c)) s)"

definition color_shape :: "string \<Rightarrow> bool" where
  "color_shape s = (hex_color s \<or> rgb_function s \<or> named_color s)"

text \<open>
  The size extractor, in the words of the specification. A numeral is a run of digits,
  optionally followed by a point and a run of digits, and its value is the decimal value.
  The numeral of an attribute is the first capture of the attribute's expression, when the
  expression is found in the text; the pieces of the viewBox are what splitting its value at
  the separators gives, when the viewBox expression is found.
\<close>

definition is_numeral :: "string \<Rightarrow> bool" where
  "is_numeral g =
     (digits_of g \<noteq> [] \<and>
      (case after_digits g of
         [] \<Rightarrow> True
       | d # fp \<Rightarrow> d = CHR ''.'' \<and> fp \<noteq> [] \<and> list_all (\<lambda>c. is_digit (of_char c)) fp))"

definition numeral_value :: "string \<Rightarrow> real" where
  "numeral_value g =
     real (dec_value (digits_of g)) +
     (case after_digits g of
        [] \<Rightarrow> 0
      | d # fp \<Rightarrow> real (dec_value fp) / 10 ^ length fp)"

definition attr_numeral :: "string \<Rightarrow> string \<Rightarrow> string option" where
  "attr_numeral name doc =
     (case str_match True (attr_re name) doc of None \<Rightarrow> None | Some m \<Rightarrow> m 1)"

definition viewBox_pieces :: "string \<Rightarrow> string list option" where
  "viewBox_pieces doc =
     (case str_match True viewBox_re doc of
        None \<Rightarrow> None
      | Some m \<Rightarrow> Some (str_split False separator_re (str_of (m 1))))"

section \<open>Sample inputs\<close>

text \<open>
  A file system in which every path holds the same text; a world in which the input exists
  or not, holds the given text, and the browser measures and renders as given; and the
  options of a conversion of \<^verbatim>\<open>a.svg\<close> with a width and a background.
\<close>

definition file_with :: "string \<Rightarrow> string \<Rightarrow> js_error + string" where
  "file_with doc path = Inr doc"

text \<open>The outcome of the \<^verbatim>\<open>catch\<close> block of \<^verbatim>\<open>convert\<close> for an error.\<close>

definition failed :: "ConversionOptions \<Rightarrow> js_error \<Rightarrow> ConversionResult" where
  "failed options e =
     \<lparr>success = False, r_outputPath = str_of (outputPath options),
      dimensions = \<lparr>width = Fin 0, height = Fin 0\<rparr>, error = Some e\<rparr>"

definition sample_world ::
    "bool \<Rightarrow> string \<Rightarrow> js_error + SVGDimensions \<Rightarrow> js_error + unit \<Rightarrow> world" where
  "sample_world present doc measured rendered =
     \<lparr>existsSync = (\<lambda>p. present), readable = (\<lambda>p. True), readFile = file_with doc,
      getDimensionsFromBrowser = (\<lambda>p. measured),
      convertWithPuppeteer = (\<lambda>p out d bg q. rendered)\<rparr>"

definition sample_options :: "jsnum option \<Rightarrow> string option \<Rightarrow> ConversionOptions" where
  "sample_options w bg =
     \<lparr>o_width = w, o_height = None, o_scale = None, o_quality = None,
      inputPath = ''a.svg'', outputPath = None, background = bg\<rparr>"

lemmas num_eval = exponent_def rnd_def round_even_def to_double_def overflow_bound_def
  num_of_real_def js_mul_def js_div_def js_sub_def js_lt_def js_le_def js_gt_def infinity_def

section \<open>Properties of the rounding\<close>

text \<open>
  The exponent found by the bisection is not above the magnitude, the nearest integer is
  within a half, and so a magnitude and its double differ by at most half a unit in the
  last place: by at most \<open>1/8\<close> up to \<open>2^50\<close>, and by at most the \<open>2^53\<close>-th part of the
  magnitude in the normal range.
\<close>

lemma round_even_nonneg: "0 \<le> r \<Longrightarrow> 0 \<le> round_even r"
  by (auto simp: round_even_def)

lemma rnd_nonneg: "0 \<le> a \<Longrightarrow> 0 \<le> rnd a"
  by (simp add: rnd_def round_even_nonneg)

lemma expo_le: "2 powi (expo ks lo a) \<le> max a (2 powi lo)"
proof (induction ks arbitrary: lo)
  case Nil
  show ?case by simp
next
  case (Cons k ks)
  show ?case
  proof (cases "2 powi (lo + k) \<le> a")
    case True
    with Cons [of "lo + k"] show ?thesis by simp
  next
    case False
    with Cons [of lo] show ?thesis by simp
  qed
qed

lemma exponent_le: "2 powi (exponent a) \<le> max a (2 powi (- 1022))"
  unfolding exponent_def by (rule expo_le)

lemma round_even_error: "\<bar>of_int (round_even y) - y\<bar> \<le> 1 / 2"
  unfolding round_even_def by (simp; linarith)

lemma rnd_error: "\<bar>rnd a - a\<bar> \<le> 2 powi (exponent a) / 2 ^ 53"
proof -
  define s :: real where "s = 2 powi (exponent a - 52)"
  have s: "0 < s" by (simp add: s_def)
  have "rnd a - a = (of_int (round_even (a / s)) - a / s) * s"
    using s by (simp add: rnd_def s_def field_simps)
  then have "\<bar>rnd a - a\<bar> = \<bar>of_int (round_even (a / s)) - a / s\<bar> * s"
    using s by (simp add: abs_mult)
  also have "\<dots> \<le> 1 / 2 * s"
    using round_even_error [of "a / s"] s by (intro mult_right_mono) simp_all
  also have "1 / 2 * s = 2 powi (exponent a) / 2 ^ 53"
    by (simp add: s_def power_int_diff)
  finally show ?thesis .
qed

lemma rnd_upper:
  assumes "0 \<le> a" "a \<le> 2 ^ 50"
  shows "rnd a \<le> a + 1 / 8"
proof -
  have "(2::real) powi (- 1022) \<le> 1" by (simp add: power_int_minus field_simps)
  then have "max a (2 powi (- 1022)) \<le> 2 ^ 50" using assms by simp
  with exponent_le [of a] have "2 powi (exponent a) \<le> (2::real) ^ 50" by linarith
  then have "2 powi (exponent a) / 2 ^ 53 \<le> (1::real) / 8" by simp
  with rnd_error [of a] show ?thesis by linarith
qed

lemma rnd_relative:
  assumes "1 / 2 ^ 1022 \<le> a"
  shows "a - a / 2 ^ 53 \<le> rnd a" "rnd a \<le> a + a / 2 ^ 53"
proof -
  have "(2::real) powi (- 1022) = 1 / 2 ^ 1022" by (simp add: power_int_minus field_simps)
  with assms have "max a (2 powi (- 1022)) = a" by simp
  with exponent_le [of a] have "2 powi (exponent a) / 2 ^ 53 \<le> a / 2 ^ 53"
    by (simp add: divide_right_mono)
  with rnd_error [of a] show "a - a / 2 ^ 53 \<le> rnd a" "rnd a \<le> a + a / 2 ^ 53" by linarith+
qed

lemma below_overflow: "a \<le> 2 ^ 1019 \<Longrightarrow> a < overflow_bound"
  by (simp add: overflow_bound_def)

lemma to_double_finite: "a \<le> 2 ^ 1019 \<Longrightarrow> to_double False a = Fin (rnd a)"
  using below_overflow [of a] by (simp add: to_double_def)

lemma mul_one:
  assumes "0 \<le> x" "x \<le> 2 ^ 50"
  shows "js_mul (Fin x) (Fin 1) = Fin (rnd x)"
proof -
  have "x \<le> 2 ^ 1019" using assms(2) by simp
  with assms(1) show ?thesis by (simp add: js_mul_def to_double_finite)
qed

lemma round_within:
  assumes "0 \<le> y" "y < b + 1 / 2"
  shows "js_le (Math_round (Fin y)) (Fin (of_int \<lceil>b\<rceil>))"
proof -
  have "y + 1 / 2 < of_int \<lceil>b\<rceil> + 1" using assms(2) le_of_int_ceiling [of b] by linarith
  then have "\<lfloor>y + 1 / 2\<rfloor> < \<lceil>b\<rceil> + 1" unfolding floor_less_iff by simp
  with assms(1) show ?thesis by (simp add: js_le_def)
qed

lemma scaled_within:
  assumes "0 \<le> x" "x \<le> b + 1 / 4" "b \<le> 2 ^ 49"
  shows "js_le (Math_round (js_mul (Fin x) (Fin 1))) (Fin (of_int \<lceil>b\<rceil>))"
proof -
  have x: "x \<le> 2 ^ 50" using assms(2,3) by simp
  from rnd_upper [OF assms(1) x] assms(2) have "rnd x < b + 1 / 2" by linarith
  with rnd_nonneg [OF assms(1)] show ?thesis
    unfolding mul_one [OF assms(1) x] by (rule round_within)
qed

section \<open>Properties of calculateDimensions\<close>

text \<open>
  C1. With a positive finite intrinsic size \<open>iw\<close> by \<open>ih\<close>, both target width \<open>w\<close> and target
  height \<open>h\<close> present and positive finite, and a positive finite scale \<open>s\<close>: when the
  intrinsic aspect \<open>iw / ih\<close> exceeds the target aspect \<open>w / h\<close> the result is
  \<open>(round (w * s), round ((w / (iw / ih)) * s))\<close>, and otherwise, equal aspects included,
  it is \<open>(round ((h * (iw / ih)) * s), round (h * s))\<close>; each axis is rounded on its own,
  after the multiplication by the scale. The quotients, the products and the comparison are
  those of the program, on doubles: a drawing of 6 by 59 asked to fit 3 by 30 comes out 3
  by 29, since \<open>3 / (6 / 59)\<close> is the double just below 29.5.
\<close>

theorem both_given_formula:
  assumes "0 < iw" "0 < ih" "0 < w" "0 < h" "0 < s"
  shows "calculateDimensions \<lparr>width = Fin iw, height = Fin ih\<rparr>
           \<lparr>o_width = Some (Fin w), o_height = Some (Fin h), o_scale = Some (Fin s)\<rparr> =
         (if js_gt (js_div (Fin iw) (Fin ih)) (js_div (Fin w) (Fin h))
          then \<lparr>width = Math_round (js_mul (Fin w) (Fin s)),
                height = Math_round (js_mul (js_div (Fin w) (js_div (Fin iw) (Fin ih))) (Fin s))\<rparr>
          else \<lparr>width = Math_round (js_mul (js_mul (Fin h) (js_div (Fin iw) (Fin ih))) (Fin s)),
                height = Math_round (js_mul (Fin h) (Fin s))\<rparr>)"
  using assms by (simp add: calculateDimensions_def Let_def)

theorem both_given_formula_witness:
  "(0::real) < 6 \<and> (0::real) < 59 \<and> (0::real) < 3 \<and> (0::real) < 30 \<and> (0::real) < 1 \<and>
   calculateDimensions \<lparr>width = Fin 6, height = Fin 59\<rparr>
     \<lparr>o_width = Some (Fin 3), o_height = Some (Fin 30), o_scale = Some (Fin 1)\<rparr> =
   \<lparr>width = Fin 3, height = Fin 29\<rparr> \<and>
   calculateDimensions \<lparr>width = Fin 100, height = Fin 200\<rparr>
     \<lparr>o_width = Some (Fin 400), o_height = Some (Fin 400), o_scale = Some (Fin 2)\<rparr> =
   \<lparr>width = Fin 400, height = Fin 800\<rparr>"
  using both_given_formula [of 6 59 3 30 1] both_given_formula [of 100 200 400 400 2]
  by (simp add: num_eval)

text \<open>
  C2, as stated, fails. The result is rounded, and rounding can carry it over a requested
  size that is not a whole number: a square drawing asked to fit a 10.6 by 10.6 box,
  without a scale, comes out 11 wide. The quotient and the product are rounded too: a
  drawing of 7239347189450199 by 49 asked to fit a box of its own size comes out one pixel
  wider, since 49 times the double of the aspect is half a pixel above the width. And the
  aspects can overflow: when both are infinite the width is the product of the requested
  height and infinity.
\<close>

theorem fit_box_counterexample:
  "width (calculateDimensions \<lparr>width = Fin 1, height = Fin 1\<rparr>
            \<lparr>o_width = Some (num_of_real 10.6), o_height = Some (num_of_real 10.6), o_scale = None\<rparr>) =
     Fin 11 \<and>
   \<not> js_le (width (calculateDimensions \<lparr>width = Fin 1, height = Fin 1\<rparr>
            \<lparr>o_width = Some (num_of_real 10.6), o_height = Some (num_of_real 10.6), o_scale = None\<rparr>))
       (num_of_real 10.6) \<and>
   width (calculateDimensions \<lparr>width = Fin 7239347189450199, height = Fin 49\<rparr>
            \<lparr>o_width = Some (Fin 7239347189450199), o_height = Some (Fin 49), o_scale = None\<rparr>) =
     Fin 7239347189450200 \<and>
   \<not> js_le (width (calculateDimensions \<lparr>width = Fin 7239347189450199, height = Fin 49\<rparr>
            \<lparr>o_width = Some (Fin 7239347189450199), o_height = Some (Fin 49), o_scale = None\<rparr>))
       (Fin 7239347189450199) \<and>
   width (calculateDimensions \<lparr>width = Fin (2 ^ 1023), height = Fin (1 / 2)\<rparr>
            \<lparr>o_width = Some (Fin 1), o_height = Some (Fin (1 / 2 ^ 1074)), o_scale = None\<rparr>) = PInf \<and>
   \<not> js_le (width (calculateDimensions \<lparr>width = Fin (2 ^ 1023), height = Fin (1 / 2)\<rparr>
            \<lparr>o_width = Some (Fin 1), o_height = Some (Fin (1 / 2 ^ 1074)), o_scale = None\<rparr>)) (Fin 1)"
proof -
  have t: "num_of_real 10.6 = Fin (5967269506265907 / 562949953421312)"
    by (simp add: num_eval)
  have 1: "calculateDimensions \<lparr>width = Fin 1, height = Fin 1\<rparr>
            \<lparr>o_width = Some (Fin (5967269506265907 / 562949953421312)),
             o_height = Some (Fin (5967269506265907 / 562949953421312)), o_scale = None\<rparr> =
          \<lparr>width = Fin 11, height = Fin 11\<rparr>"
    by (simp add: calculateDimensions_def Let_def num_eval)
  have 2: "calculateDimensions \<lparr>width = Fin 7239347189450199, height = Fin 49\<rparr>
            \<lparr>o_width = Some (Fin 7239347189450199), o_height = Some (Fin 49), o_scale = None\<rparr> =
          \<lparr>width = Fin 7239347189450200, height = Fin 49\<rparr>"
    by (simp add: calculateDimensions_def Let_def num_eval)
  have 3: "calculateDimensions \<lparr>width = Fin (2 ^ 1023), height = Fin (1 / 2)\<rparr>
            \<lparr>o_width = Some (Fin 1), o_height = Some (Fin (1 / 2 ^ 1074)), o_scale = None\<rparr> =
          \<lparr>width = PInf, height = Fin 0\<rparr>"
    by (simp add: calculateDimensions_def Let_def num_eval)
  show ?thesis unfolding t 1 2 3 by (simp add: js_le_def)
qed

text \<open>
  The two branches of the both-dimensions case, for a box between \<open>2^-970\<close> and \<open>2^49\<close>:
  the target aspect is a normal double, the derived side is at most a quarter above the
  side requested for it, and the multiplication by the scale 1 and the rounding keep it
  within the requested side rounded up.
\<close>

lemma target_aspect:
  fixes w h :: real
  assumes "1 / 2 ^ 970 \<le> w" "w \<le> 2 ^ 49" "1 / 2 ^ 970 \<le> h" "h \<le> 2 ^ 49"
  shows "w / h \<le> 2 ^ 1019" "1 / 2 ^ 1022 \<le> w / h"
proof -
  have w: "0 < w" and h: "0 < h" using assms(1,3) by (simp_all add: less_le_trans [rotated])
  have "w \<le> 2 ^ 49 * (2 ^ 970 * h)" 
  proof -
    have "1 \<le> 2 ^ 970 * h" using assms(3) by (simp add: field_simps)
    then have "2 ^ 49 * 1 \<le> 2 ^ 49 * (2 ^ 970 * h)" by (intro mult_left_mono) simp_all
    with assms(2) show ?thesis by linarith
  qed
  then have "w \<le> 2 ^ 1019 * h" by simp
  with h show "w / h \<le> 2 ^ 1019" by (simp add: pos_divide_le_eq)
  have "h \<le> 2 ^ 49 * (2 ^ 970 * w)"
  proof -
    have "1 \<le> 2 ^ 970 * w" using assms(1) by (simp add: field_simps)
    then have "2 ^ 49 * 1 \<le> 2 ^ 49 * (2 ^ 970 * w)" by (intro mult_left_mono) simp_all
    with assms(4) show ?thesis by linarith
  qed
  then have "h \<le> 2 ^ 1019 * w" by simp
  moreover have "2 ^ 1019 * w \<le> 2 ^ 1022 * w" using w by simp
  ultimately have "h \<le> 2 ^ 1022 * w" by linarith
  with h show "1 / 2 ^ 1022 \<le> w / h" by (simp add: field_simps)
qed

lemma fit_wide:
  fixes w h :: real
  assumes "1 / 2 ^ 970 \<le> w" "w \<le> 2 ^ 49" "1 / 2 ^ 970 \<le> h" "h \<le> 2 ^ 49"
    and "rnd (w / h) < q"
  shows "js_div (Fin w) (Fin q) = Fin (rnd (w / q))" "0 \<le> rnd (w / q)" "rnd (w / q) \<le> h + 1 / 4"
proof -
  have w: "0 < w" and h: "0 < h" using assms(1,3) by (simp_all add: less_le_trans [rotated])
  let ?u = "(1::real) / 2 ^ 53"
  from rnd_relative(1) [OF target_aspect(2) [OF assms(1-4)]]
  have low: "w / h * (1 - ?u) \<le> rnd (w / h)" by (simp add: algebra_simps)
  have "0 < w / h * (1 - ?u)" using w h by simp
  with low assms(5) have q: "0 < q" by linarith
  have "h * ?u \<le> 2 ^ 49 * ?u" using assms(4) by (intro mult_right_mono) simp_all
  then have "h \<le> (h + 1 / 8) * (1 - ?u)" by (simp add: algebra_simps)
  then have "w / h * h \<le> w / h * ((h + 1 / 8) * (1 - ?u))"
    using w h by (intro mult_left_mono) simp_all
  then have "w \<le> (h + 1 / 8) * (w / h * (1 - ?u))" using h by (simp add: mult.assoc mult.left_commute)
  also have "\<dots> \<le> (h + 1 / 8) * q" using low assms(5) h by (intro mult_left_mono) simp_all
  finally have "w / q \<le> h + 1 / 8" using q by (simp add: pos_divide_le_eq)
  moreover have nn: "0 \<le> w / q" using w q by simp
  ultimately have le: "w / q \<le> 2 ^ 50" using assms(4) by simp
  then have "w / q \<le> 2 ^ 1019" by simp
  then show "js_div (Fin w) (Fin q) = Fin (rnd (w / q))"
    using w q by (simp add: js_div_def to_double_finite)
  show "0 \<le> rnd (w / q)" using nn by (rule rnd_nonneg)
  show "rnd (w / q) \<le> h + 1 / 4"
    using rnd_upper [OF nn le] \<open>w / q \<le> h + 1 / 8\<close> by linarith
qed

lemma fit_tall:
  fixes w h :: real
  assumes "1 / 2 ^ 970 \<le> w" "w \<le> 2 ^ 49" "1 / 2 ^ 970 \<le> h" "h \<le> 2 ^ 49"
    and "0 \<le> q" "q \<le> rnd (w / h)"
  shows "js_mul (Fin h) (Fin q) = Fin (rnd (h * q))" "0 \<le> rnd (h * q)" "rnd (h * q) \<le> w + 1 / 4"
proof -
  have w: "0 < w" and h: "0 < h" using assms(1,3) by (simp_all add: less_le_trans [rotated])
  let ?u = "(1::real) / 2 ^ 53"
  from rnd_relative(2) [OF target_aspect(2) [OF assms(1-4)]]
  have up: "rnd (w / h) \<le> w / h * (1 + ?u)" by (simp add: algebra_simps)
  have "h * q \<le> h * (w / h * (1 + ?u))" using up assms(6) h by (intro mult_left_mono) simp_all
  also have "\<dots> = w + w * ?u" using h by (simp add: algebra_simps)
  also have "\<dots> \<le> w + 2 ^ 49 * ?u" using assms(2) by simp
  finally have b: "h * q \<le> w + 1 / 16" by simp
  have nn: "0 \<le> h * q" using h assms(5) by simp
  have le: "h * q \<le> 2 ^ 50" using b assms(2) by simp
  then have "h * q \<le> 2 ^ 1019" by simp
  then show "js_mul (Fin h) (Fin q) = Fin (rnd (h * q))"
    using h assms(5) by (simp add: js_mul_def to_double_finite)
  show "0 \<le> rnd (h * q)" using nn by (rule rnd_nonneg)
  show "rnd (h * q) \<le> w + 1 / 4" using rnd_upper [OF nn le] b by linarith
qed

lemma intrinsic_aspect:
  assumes "0 < iw" "0 < ih"
  shows "js_div (Fin iw) (Fin ih) = PInf \<or> (\<exists>q. 0 \<le> q \<and> js_div (Fin iw) (Fin ih) = Fin q)"
proof (cases "overflow_bound \<le> iw / ih")
  case True
  with assms show ?thesis by (simp add: js_div_def to_double_def)
next
  case False
  have "0 \<le> rnd (iw / ih)" using assms by (intro rnd_nonneg) simp
  moreover have "js_div (Fin iw) (Fin ih) = Fin (rnd (iw / ih))"
    using assms False by (simp add: js_div_def to_double_def)
  ultimately show ?thesis by blast
qed

lemma fit_box:
  fixes w h :: real
  assumes "0 < iw" "0 < ih"
    and "1 / 2 ^ 970 \<le> w" "w \<le> 2 ^ 49" "1 / 2 ^ 970 \<le> h" "h \<le> 2 ^ 49"
    and "sc = None \<or> sc = Some (Fin 1)"
  shows "js_le (width (calculateDimensions \<lparr>width = Fin iw, height = Fin ih\<rparr>
                         \<lparr>o_width = Some (Fin w), o_height = Some (Fin h), o_scale = sc\<rparr>))
               (Fin (of_int \<lceil>w\<rceil>)) \<and>
         js_le (height (calculateDimensions \<lparr>width = Fin iw, height = Fin ih\<rparr>
                         \<lparr>o_width = Some (Fin w), o_height = Some (Fin h), o_scale = sc\<rparr>))
               (Fin (of_int \<lceil>h\<rceil>))"
proof -
  have w: "0 < w" and h: "0 < h" using assms(3,5) by (simp_all add: less_le_trans [rotated])
  note box = assms(3-6)
  let ?Q = "js_div (Fin iw) (Fin ih)"
  let ?r = "calculateDimensions \<lparr>width = Fin iw, height = Fin ih\<rparr>
              \<lparr>o_width = Some (Fin w), o_height = Some (Fin h), o_scale = sc\<rparr>"
  have P: "js_div (Fin w) (Fin h) = Fin (rnd (w / h))"
    using w h target_aspect(1) [OF box] by (simp add: js_div_def to_double_finite)
  have r: "?r = (if js_gt ?Q (Fin (rnd (w / h)))
          then \<lparr>width = Math_round (js_mul (Fin w) (Fin 1)),
                height = Math_round (js_mul (js_div (Fin w) ?Q) (Fin 1))\<rparr>
          else \<lparr>width = Math_round (js_mul (js_mul (Fin h) ?Q) (Fin 1)),
                height = Math_round (js_mul (Fin h) (Fin 1))\<rparr>)"
    using w h assms(7) by (auto simp add: calculateDimensions_def Let_def P)
  have own_w: "js_le (Math_round (js_mul (Fin w) (Fin 1))) (Fin (of_int \<lceil>w\<rceil>))"
    using w box(2) by (intro scaled_within) simp_all
  have own_h: "js_le (Math_round (js_mul (Fin h) (Fin 1))) (Fin (of_int \<lceil>h\<rceil>))"
    using h box(4) by (intro scaled_within) simp_all
  from intrinsic_aspect [OF assms(1,2)] show ?thesis
  proof
    assume Q: "?Q = PInf"
    have "js_div (Fin w) PInf = Fin (rnd 0)"
      using w by (simp add: js_div_def to_double_finite)
    moreover have "0 \<le> rnd 0" "rnd 0 \<le> h + 1 / 4"
      using rnd_nonneg [of 0] rnd_upper [of 0] h by simp_all
    ultimately have "js_le (Math_round (js_mul (js_div (Fin w) PInf) (Fin 1))) (Fin (of_int \<lceil>h\<rceil>))"
      using box(4) by (simp add: scaled_within)
    with own_w show ?thesis unfolding r Q by (simp add: js_gt_def js_lt_def)
  next
    assume "\<exists>q. 0 \<le> q \<and> ?Q = Fin q"
    then obtain q where q: "0 \<le> q" and Q: "?Q = Fin q" by blast
    show ?thesis
    proof (cases "rnd (w / h) < q")
      case True
      from fit_wide [OF box True]
      have "js_le (Math_round (js_mul (js_div (Fin w) (Fin q)) (Fin 1))) (Fin (of_int \<lceil>h\<rceil>))"
        using box(4) by (simp add: scaled_within)
      with own_w True show ?thesis unfolding r Q by (simp add: js_gt_def js_lt_def)
    next
      case False
      then have "q \<le> rnd (w / h)" by simp
      from fit_tall [OF box q this]
      have "js_le (Math_round (js_mul (js_mul (Fin h) (Fin q)) (Fin 1))) (Fin (of_int \<lceil>w\<rceil>))"
        using box(2) by (simp add: scaled_within)
      with own_h False show ?thesis unfolding r Q by (simp add: js_gt_def js_lt_def)
    qed
  qed
qed

text \<open>
  C2, amended. With a positive finite intrinsic size, both target width and target height
  present and between \<open>2^-970\<close> and \<open>2^49\<close>, and the scale 1 or absent, the result does not
  exceed the requested box rounded up to whole pixels: \<open>result.width \<le> \<lceil>target.width\<rceil>\<close> and
  \<open>result.height \<le> \<lceil>target.height\<rceil>\<close>. In particular \<open>result.width \<le> target.width\<close> when
  the target width is a whole number, and \<open>result.height \<le> target.height\<close> when the target
  height is.
\<close>

theorem fit_box_rounded:
  fixes w h :: real
  assumes "0 < iw" "0 < ih"
    and "1 / 2 ^ 970 \<le> w" "w \<le> 2 ^ 49" "1 / 2 ^ 970 \<le> h" "h \<le> 2 ^ 49"
    and "sc = None \<or> sc = Some (Fin 1)"
  shows "js_le (width (calculateDimensions \<lparr>width = Fin iw, height = Fin ih\<rparr>
                         \<lparr>o_width = Some (Fin w), o_height = Some (Fin h), o_scale = sc\<rparr>))
               (Fin (of_int \<lceil>w\<rceil>)) \<and>
         js_le (height (calculateDimensions \<lparr>width = Fin iw, height = Fin ih\<rparr>
                         \<lparr>o_width = Some (Fin w), o_height = Some (Fin h), o_scale = sc\<rparr>))
               (Fin (of_int \<lceil>h\<rceil>)) \<and>
         (w \<in> \<int> \<longrightarrow>
            js_le (width (calculateDimensions \<lparr>width = Fin iw, height = Fin ih\<rparr>
                         \<lparr>o_width = Some (Fin w), o_height = Some (Fin h), o_scale = sc\<rparr>)) (Fin w)) \<and>
         (h \<in> \<int> \<longrightarrow>
            js_le (height (calculateDimensions \<lparr>width = Fin iw, height = Fin ih\<rparr>
                         \<lparr>o_width = Some (Fin w), o_height = Some (Fin h), o_scale = sc\<rparr>)) (Fin h))"
proof -
  have whole: "of_int \<lceil>x\<rceil> = x" if "x \<in> \<int>" for x :: real
    using that by (auto elim: Ints_cases)
  from fit_box [OF assms] show ?thesis by (auto simp add: whole)
qed

theorem fit_box_rounded_witness:
  "calculateDimensions \<lparr>width = Fin 3, height = Fin 22\<rparr>
     \<lparr>o_width = Some (Fin (6755399441055743 / 4503599627370496)), o_height = Some (Fin 11),
      o_scale = None\<rparr> = \<lparr>width = Fin 2, height = Fin 11\<rparr> \<and>
   \<lceil>6755399441055743 / 4503599627370496 :: real\<rceil> = 2 \<and>
   js_le (Fin 2) (Fin (of_int \<lceil>6755399441055743 / 4503599627370496 :: real\<rceil>)) \<and>
   js_le (Fin 11) (Fin 11) \<and>
   calculateDimensions \<lparr>width = Fin 6, height = Fin 59\<rparr>
     \<lparr>o_width = Some (Fin 3), o_height = Some (Fin 30), o_scale = Some (Fin 1)\<rparr> =
     \<lparr>width = Fin 3, height = Fin 29\<rparr> \<and>
   (3::real) \<in> \<int> \<and> (30::real) \<in> \<int> \<and> js_le (Fin 3) (Fin 3) \<and> js_le (Fin 29) (Fin 30)"
proof -
  have 1: "calculateDimensions \<lparr>width = Fin 3, height = Fin 22\<rparr>
     \<lparr>o_width = Some (Fin (6755399441055743 / 4503599627370496)), o_height = Some (Fin 11),
      o_scale = None\<rparr> = \<lparr>width = Fin 2, height = Fin 11\<rparr>"
    by (simp add: calculateDimensions_def Let_def num_eval)
  have 2: "calculateDimensions \<lparr>width = Fin 6, height = Fin 59\<rparr>
     \<lparr>o_width = Some (Fin 3), o_height = Some (Fin 30), o_scale = Some (Fin 1)\<rparr> =
     \<lparr>width = Fin 3, height = Fin 29\<rparr>"
    by (simp add: calculateDimensions_def Let_def num_eval)
  have c: "\<lceil>6755399441055743 / 4503599627370496 :: real\<rceil> = 2"
    by (simp add: ceiling_eq_iff)
  show ?thesis
    using fit_box_rounded [of 3 22 "6755399441055743 / 4503599627370496" 11 None]
      fit_box_rounded [of 6 59 3 30 "Some (Fin 1)"]
    unfolding 1 2 c by simp
qed

text \<open>
  C5. With a positive finite intrinsic size \<open>iw\<close> by \<open>ih\<close> and a positive finite scale \<open>s\<close>, a
  target with only the width \<open>x\<close> present gives
  \<open>(round (x * s), round ((x * (ih / iw)) * s))\<close>, and a target with only the height \<open>x\<close>
  present gives the symmetric \<open>(round ((x * (iw / ih)) * s), round (x * s))\<close>. The quotient
  and the products are those of the program, on doubles: a drawing of 6 by 13 asked for
  the width 27 comes out 27 by 58, since \<open>27 * (13 / 6)\<close> is the double just below 58.5.
\<close>

theorem one_given_formula:
  assumes "0 < iw" "0 < ih" "0 < x" "0 < s"
  shows "calculateDimensions \<lparr>width = Fin iw, height = Fin ih\<rparr>
           \<lparr>o_width = Some (Fin x), o_height = None, o_scale = Some (Fin s)\<rparr> =
         \<lparr>width = Math_round (js_mul (Fin x) (Fin s)),
          height = Math_round (js_mul (js_mul (Fin x) (js_div (Fin ih) (Fin iw))) (Fin s))\<rparr> \<and>
         calculateDimensions \<lparr>width = Fin iw, height = Fin ih\<rparr>
           \<lparr>o_width = None, o_height = Some (Fin x), o_scale = Some (Fin s)\<rparr> =
         \<lparr>width = Math_round (js_mul (js_mul (Fin x) (js_div (Fin iw) (Fin ih))) (Fin s)),
          height = Math_round (js_mul (Fin x) (Fin s))\<rparr>"
  using assms by (simp add: calculateDimensions_def Let_def)

theorem one_given_formula_witness:
  "(0::real) < 6 \<and> (0::real) < 13 \<and> (0::real) < 27 \<and> (0::real) < 1 \<and>
   calculateDimensions \<lparr>width = Fin 6, height = Fin 13\<rparr>
     \<lparr>o_width = Some (Fin 27), o_height = None, o_scale = Some (Fin 1)\<rparr> =
   \<lparr>width = Fin 27, height = Fin 58\<rparr> \<and>
   calculateDimensions \<lparr>width = Fin 6, height = Fin 13\<rparr>
     \<lparr>o_width = None, o_height = Some (Fin 27), o_scale = Some (Fin 1)\<rparr> =
   \<lparr>width = Fin 12, height = Fin 27\<rparr>"
  using one_given_formula [of 6 13 27 1] by (simp add: num_eval)

lemma mul_one_representable:
  assumes "0 < x" "representable x"
  shows "js_mul (Fin x) (Fin 1) = Fin x"
  using assms by (simp add: js_mul_def to_double_def representable_def)

text \<open>
  C6. With a positive finite intrinsic size \<open>iw\<close> by \<open>ih\<close> and neither target width nor target
  height present, the result is \<open>(round (iw * s), round (ih * s))\<close> for a given positive
  scale \<open>s\<close>, and with the scale absent it is taken as 1. The products are those of the
  program, on doubles; the product of a double and 1 is the double itself, so the result on
  the empty options is \<open>(round iw, round ih)\<close>.
\<close>

theorem none_given_formula:
  assumes "0 < iw" "0 < ih" "0 < s"
  shows "calculateDimensions \<lparr>width = Fin iw, height = Fin ih\<rparr>
           \<lparr>o_width = None, o_height = None, o_scale = Some (Fin s)\<rparr> =
         \<lparr>width = Math_round (js_mul (Fin iw) (Fin s)),
          height = Math_round (js_mul (Fin ih) (Fin s))\<rparr> \<and>
         calculateDimensions \<lparr>width = Fin iw, height = Fin ih\<rparr>
           \<lparr>o_width = None, o_height = None, o_scale = None\<rparr> =
         \<lparr>width = Math_round (js_mul (Fin iw) (Fin 1)),
          height = Math_round (js_mul (Fin ih) (Fin 1))\<rparr> \<and>
         (representable iw \<and> representable ih \<longrightarrow>
          calculateDimensions \<lparr>width = Fin iw, height = Fin ih\<rparr>
            \<lparr>o_width = None, o_height = None, o_scale = None\<rparr> =
          \<lparr>width = Math_round (Fin iw), height = Math_round (Fin ih)\<rparr>)"
  using assms by (simp add: calculateDimensions_def Let_def mul_one_representable)

theorem none_given_formula_witness:
  "(0::real) < 5 \<and> (0::real) < 5404319552844595 / 18014398509481984 \<and>
   representable 5 \<and>
   calculateDimensions \<lparr>width = Fin 5, height = Fin 5\<rparr>
     \<lparr>o_width = None, o_height = None,
      o_scale = Some (Fin (5404319552844595 / 18014398509481984))\<rparr> =
   \<lparr>width = Fin 2, height = Fin 2\<rparr> \<and>
   calculateDimensions \<lparr>width = Fin 5, height = Fin 5\<rparr>
     \<lparr>o_width = None, o_height = None, o_scale = None\<rparr> =
   \<lparr>width = Fin 5, height = Fin 5\<rparr>"
  using none_given_formula [of 5 5 "5404319552844595 / 18014398509481984"]
  by (simp add: num_eval representable_def)

section \<open>Properties of validateOptions\<close>

lemma bad_positive_code:
  "bad_positive v \<longleftrightarrow> v \<noteq> None \<and> (js_le (num_of v) (Fin 0) \<or> \<not> isFinite (num_of v))"
  by (auto simp: bad_positive_def js_le_def split: option.splits jsnum.splits)

lemma bad_quality_code:
  "bad_quality v \<longleftrightarrow> v \<noteq> None \<and> (js_lt (num_of v) (Fin 0) \<or> js_gt (num_of v) (Fin 100))"
  by (auto simp: bad_quality_def js_gt_def js_lt_def split: option.splits jsnum.splits)

text \<open>
  C7. The validator fails exactly when a present width, height or scale is \<open>\<le> 0\<close> or not
  finite, or a present quality is \<open>< 0\<close> or \<open>> 100\<close>. The checks run in the order width,
  height, scale, quality, and the first one that fails ends the call with the error of
  that field, which carries the value. The options
  \<^verbatim>\<open>{width:10, height:20, scale:2, quality:80}\<close> pass.
\<close>

theorem validateOptions_first_failure:
  "validateOptions options =
     (if bad_positive (o_width options) then Inl (InvalidWidth (num_of (o_width options)))
      else if bad_positive (o_height options) then Inl (InvalidHeight (num_of (o_height options)))
      else if bad_positive (o_scale options) then Inl (InvalidScale (num_of (o_scale options)))
      else if bad_quality (o_quality options) then Inl (InvalidQuality (num_of (o_quality options)))
      else Inr ()) \<and>
   ((\<exists>e. validateOptions options = Inl e) \<longleftrightarrow>
      bad_positive (o_width options) \<or> bad_positive (o_height options) \<or>
      bad_positive (o_scale options) \<or> bad_quality (o_quality options)) \<and>
   validateOptions \<lparr>o_width = Some (Fin 10), o_height = Some (Fin 20), o_scale = Some (Fin 2),
                    o_quality = Some (Fin 80)\<rparr> = Inr ()"
  by (simp add: validateOptions_def bad_positive_code bad_quality_code js_gt_def js_lt_def js_le_def)

theorem validateOptions_first_failure_witness:
  "validateOptions \<lparr>o_width = Some (Fin (- 1)), o_height = Some NaN, o_scale = None,
                    o_quality = Some (Fin 150)\<rparr> = Inl (InvalidWidth (Fin (- 1))) \<and>
   validateOptions \<lparr>o_width = None, o_height = None, o_scale = None,
                    o_quality = Some (Fin 150)\<rparr> = Inl (InvalidQuality (Fin 150))"
  using validateOptions_first_failure [of "\<lparr>o_width = Some (Fin (- 1)), o_height = Some NaN,
            o_scale = None, o_quality = Some (Fin 150)\<rparr>"]
    validateOptions_first_failure [of "\<lparr>o_width = None, o_height = None, o_scale = None,
            o_quality = Some (Fin 150)\<rparr>"]
  by (simp add: bad_positive_def bad_quality_def)

section \<open>Properties of the matcher\<close>

lemma set_one:
  "set (one P (i, s, c)) = (if s \<noteq> [] \<and> P (hd s) then {(Suc i, tl s, c)} else {})"
  by (cases s) (simp_all add: one_def)

lemma lits_Nil: "lits ic [] st = [st]"
  by (cases st) (simp add: lits_def)

lemma lits_Cons:
  "lits ic (a # w) (i, s, c) =
     (case s of [] \<Rightarrow> [] | x # xs \<Rightarrow> if set_has ic [CChar a] x then lits ic w (Suc i, xs, c) else [])"
  by (cases s) (auto simp add: lits_def)

lemma rep_opt_one:
  "(j, t, c') \<in> set (rep_opt (one P) n (i, s, c)) \<longleftrightarrow>
     (\<exists>k. k \<le> n \<and> k \<le> length (takeWhile P s) \<and> j = i + k \<and> t = drop k s \<and> c' = c)"
proof (induction n arbitrary: i s)
  case 0
  then show ?case by auto
next
  case (Suc n)
  show ?case
  proof (cases s)
    case Nil
    then show ?thesis by (auto simp: one_def)
  next
    case (Cons x xs)
    show ?thesis
    proof (cases "P x")
      case False
      with Cons show ?thesis by (auto simp: one_def)
    next
      case True
      have "(j, t, c') \<in> set (rep_opt (one P) (Suc n) (i, s, c)) \<longleftrightarrow>
            (j, t, c') \<in> set (rep_opt (one P) n (Suc i, xs, c)) \<or> (j, t, c') = (i, s, c)"
        using Cons True by (auto simp add: one_def)
      also have "\<dots> \<longleftrightarrow> (\<exists>k. k \<le> n \<and> k \<le> length (takeWhile P xs) \<and> j = Suc i + k \<and> t = drop k xs \<and> c' = c)
                     \<or> (j, t, c') = (i, s, c)"
        by (simp only: Suc.IH)
      also have "\<dots> \<longleftrightarrow> (\<exists>k. k \<le> Suc n \<and> k \<le> length (takeWhile P s) \<and> j = i + k \<and> t = drop k s \<and> c' = c)"
        (is "?L \<longleftrightarrow> ?R")
      proof
        assume ?L
        then show ?R
        proof
          assume "\<exists>k. k \<le> n \<and> k \<le> length (takeWhile P xs) \<and> j = Suc i + k \<and> t = drop k xs \<and> c' = c"
          then obtain k where "k \<le> n" "k \<le> length (takeWhile P xs)" "j = Suc i + k" "t = drop k xs" "c' = c"
            by blast
          then show ?R using Cons True by (intro exI [of _ "Suc k"]) simp
        next
          assume "(j, t, c') = (i, s, c)"
          then show ?R by (intro exI [of _ 0]) simp
        qed
      next
        assume ?R
        then obtain k where k: "k \<le> Suc n" "k \<le> length (takeWhile P s)" "j = i + k" "t = drop k s" "c' = c"
          by blast
        show ?L
        proof (cases k)
          case 0
          with k show ?thesis by simp
        next
          case (Suc k')
          with k Cons True show ?thesis by auto
        qed
      qed
      finally show ?thesis .
    qed
  qed
qed

lemma rep_min_one:
  "(j, t, c') \<in> set (rep_min (one P) lo extra (i, s, c)) \<longleftrightarrow>
     (\<exists>k. lo \<le> k \<and> k \<le> lo + extra \<and> k \<le> length (takeWhile P s) \<and> j = i + k \<and> t = drop k s \<and> c' = c)"
proof (induction lo arbitrary: i s)
  case 0
  then show ?case by (simp add: rep_opt_one)
next
  case (Suc lo)
  show ?case
  proof (cases s)
    case Nil
    then show ?thesis by (auto simp: one_def)
  next
    case (Cons x xs)
    show ?thesis
    proof (cases "P x")
      case False
      with Cons show ?thesis by (auto simp: one_def)
    next
      case True
      have "(j, t, c') \<in> set (rep_min (one P) (Suc lo) extra (i, s, c)) \<longleftrightarrow>
            (j, t, c') \<in> set (rep_min (one P) lo extra (Suc i, xs, c))"
        using Cons True by (simp add: one_def)
      also have "\<dots> \<longleftrightarrow> (\<exists>k. lo \<le> k \<and> k \<le> lo + extra \<and> k \<le> length (takeWhile P xs) \<and>
                              j = Suc i + k \<and> t = drop k xs \<and> c' = c)"
        by (simp only: Suc.IH)
      also have "\<dots> \<longleftrightarrow> (\<exists>k. Suc lo \<le> k \<and> k \<le> Suc lo + extra \<and> k \<le> length (takeWhile P s) \<and>
                              j = i + k \<and> t = drop k s \<and> c' = c)"
        (is "?L \<longleftrightarrow> ?R")
      proof
        assume ?L
        then obtain k where "lo \<le> k" "k \<le> lo + extra" "k \<le> length (takeWhile P xs)"
            "j = Suc i + k" "t = drop k xs" "c' = c"
          by blast
        then show ?R using Cons True by (intro exI [of _ "Suc k"]) simp
      next
        assume ?R
        then obtain k where k: "Suc lo \<le> k" "k \<le> Suc lo + extra" "k \<le> length (takeWhile P s)"
            "j = i + k" "t = drop k s" "c' = c"
          by blast
        then obtain k' where "k = Suc k'" by (cases k) auto
        with k Cons True show ?L by auto
      qed
      finally show ?thesis .
    qed
  qed
qed

lemma exec_from_None:
  "exec_from ic r i s = None \<longleftrightarrow> (\<forall>k \<le> length s. rmatch ic r (i + k, drop k s, Map.empty) = [])"
proof (induction s arbitrary: i)
  case Nil
  then show ?case by (simp split: list.splits)
next
  case (Cons x xs)
  have "(\<forall>k \<le> length (x # xs). rmatch ic r (i + k, drop k (x # xs), Map.empty) = []) \<longleftrightarrow>
        rmatch ic r (i, x # xs, Map.empty) = [] \<and>
        (\<forall>k \<le> length xs. rmatch ic r (Suc i + k, drop k xs, Map.empty) = [])"
    (is "?A \<longleftrightarrow> ?B \<and> ?C")
  proof
    assume a: ?A
    from a [rule_format, of 0] have ?B by simp
    moreover have ?C
    proof (intro allI impI)
      fix k assume "k \<le> length xs"
      with a [rule_format, of "Suc k"] show "rmatch ic r (Suc i + k, drop k xs, Map.empty) = []"
        by simp
    qed
    ultimately show "?B \<and> ?C" ..
  next
    assume bc: "?B \<and> ?C"
    show ?A
    proof (intro allI impI)
      fix k assume k: "k \<le> length (x # xs)"
      show "rmatch ic r (i + k, drop k (x # xs), Map.empty) = []"
      proof (cases k)
        case 0
        with bc show ?thesis by simp
      next
        case (Suc k')
        with k bc [THEN conjunct2, rule_format, of k'] show ?thesis by simp
      qed
    qed
  qed
  with Cons.IH [of "Suc i"] show ?case by (simp split: list.splits)
qed

lemma re_test_anchored:
  "re_test ic (Seq Bol r) s \<longleftrightarrow> rmatch ic r (0, s, Map.empty) \<noteq> []"
proof -
  have "(\<exists>k \<le> length s. rmatch ic (Seq Bol r) (k, drop k s, Map.empty) \<noteq> []) \<longleftrightarrow>
        rmatch ic r (0, s, Map.empty) \<noteq> []"
    by auto
  then show ?thesis by (simp add: re_test_def exec_from_None)
qed

lemma group_then_end:
  "rmatch ic (Seq (Group n r) Eol) st \<noteq> [] \<longleftrightarrow> (\<exists>st' \<in> set (rmatch ic r st). fst (snd st') = [])"
  by (induction "rmatch ic r st") (auto simp: concat_eq_Nil_conv)

lemma full_run:
  "(\<exists>k. lo \<le> k \<and> k \<le> hi \<and> k \<le> length (takeWhile P s) \<and> drop k s = []) \<longleftrightarrow>
   lo \<le> length s \<and> length s \<le> hi \<and> list_all P s"
proof
  assume "\<exists>k. lo \<le> k \<and> k \<le> hi \<and> k \<le> length (takeWhile P s) \<and> drop k s = []"
  then obtain k where k: "lo \<le> k" "k \<le> hi" "k \<le> length (takeWhile P s)" "drop k s = []"
    by blast
  have le: "length (takeWhile P s) \<le> length s" by (rule length_takeWhile_le)
  from k le have "length (takeWhile P s) = length s" by simp
  then have "takeWhile P s = s"
    by (metis takeWhile_dropWhile_id length_append add_cancel_right_right length_0_conv append_Nil2)
  then have "list_all P s" by (metis list_all_iff set_takeWhileD)
  with k le show "lo \<le> length s \<and> length s \<le> hi \<and> list_all P s" by simp
next
  assume a: "lo \<le> length s \<and> length s \<le> hi \<and> list_all P s"
  then have "takeWhile P s = s" by (simp add: list_all_iff)
  then have "length (takeWhile P s) = length s" by (rule arg_cong)
  with a show "\<exists>k. lo \<le> k \<and> k \<le> hi \<and> k \<le> length (takeWhile P s) \<and> drop k s = []"
    by (intro exI [of _ "length s"]) simp
qed

lemma rep_one_ends:
  "(\<exists>st \<in> set (rep_min (one P) lo extra (i, s, c)). fst (snd st) = []) \<longleftrightarrow>
   lo \<le> length s \<and> length s \<le> lo + extra \<and> list_all P s"
proof -
  have "(\<exists>st \<in> set (rep_min (one P) lo extra (i, s, c)). fst (snd st) = []) \<longleftrightarrow>
        (\<exists>k. lo \<le> k \<and> k \<le> lo + extra \<and> k \<le> length (takeWhile P s) \<and> drop k s = [])"
    (is "?L \<longleftrightarrow> ?R")
  proof
    assume ?L
    then obtain j t c' where "(j, t, c') \<in> set (rep_min (one P) lo extra (i, s, c))" "t = []"
      by auto
    then show ?R by (auto simp: rep_min_one)
  next
    assume ?R
    then obtain k where k: "lo \<le> k" "k \<le> lo + extra" "k \<le> length (takeWhile P s)" "drop k s = []"
      by blast
    then have "(i + k, drop k s, c) \<in> set (rep_min (one P) lo extra (i, s, c))"
      unfolding rep_min_one by blast
    with k(4) show ?L by force
  qed
  then show ?thesis by (simp only: full_run)
qed

lemma lit_plain:
  assumes "\<not> is_letter (of_char a)"
  shows "set_has ic [CChar a] x \<longleftrightarrow> x = a"
proof -
  have "of_char a = other_case (of_char x) \<longleftrightarrow> (of_char a :: nat) = of_char x"
    using assms by (auto simp: other_case_def is_letter_def)
  then show ?thesis by (auto simp: set_has_def)
qed

lemma of_char_lower_char:
  "(of_char (lower_char x) :: nat) =
     (if 65 \<le> (of_char x :: nat) \<and> (of_char x :: nat) \<le> 90 then of_char x + 32 else of_char x)"
  by (simp add: lower_char_def)

lemma lit_lower:
  assumes "97 \<le> (of_char a :: nat)" "(of_char a :: nat) \<le> 122"
  shows "set_has True [CChar a] x \<longleftrightarrow> lower_char x = a"
proof -
  have "lower_char x = a \<longleftrightarrow> (of_char (lower_char x) :: nat) = of_char a"
    by (simp only: of_char_eq_iff)
  also have "\<dots> \<longleftrightarrow> (of_char a :: nat) = of_char x \<or> of_char a = other_case (of_char x)"
    unfolding of_char_lower_char using assms by (auto simp: other_case_def)
  finally show ?thesis by (simp add: set_has_def)
qed

lemma hex_class:
  "set_has True [CRange CHR ''0'' CHR ''9'', CRange CHR ''a'' CHR ''f''] x = is_hex_digit (of_char x)"
  by (auto simp: set_has_def is_hex_digit_def other_case_def)

lemma letter_class:
  "set_has True [CRange CHR ''a'' CHR ''z''] x = is_letter (of_char x)"
  by (auto simp: set_has_def is_letter_def other_case_def)

lemma hex_alt:
  "(\<exists>st \<in> set (rmatch True (Seq (Str ''#'')
        (Rep 3 8 (Cls False [CRange CHR ''0'' CHR ''9'', CRange CHR ''a'' CHR ''f'']))) (i, s, c)).
      fst (snd st) = []) \<longleftrightarrow> hex_color s"
proof (cases s)
  case Nil
  then show ?thesis by (simp add: lits_Cons hex_color_def)
next
  case (Cons x xs)
  have plain: "set_has True [CChar CHR ''#''] x \<longleftrightarrow> x = CHR ''#''"
    by (rule lit_plain) (simp add: is_letter_def)
  show ?thesis
  proof (cases "x = CHR ''#''")
    case False
    with Cons plain show ?thesis by (simp add: lits_Cons hex_color_def)
  next
    case True
    have "(\<exists>st \<in> set (rep_min (one (\<lambda>x. is_hex_digit (of_char x))) 3 5 (Suc i, xs, c)).
             fst (snd st) = []) \<longleftrightarrow>
          3 \<le> length xs \<and> length xs \<le> 8 \<and> list_all (\<lambda>c. is_hex_digit (of_char c)) xs"
      by (simp only: rep_one_ends) simp
    with Cons True plain show ?thesis
      by (simp add: lits_Cons lits_Nil hex_color_def hex_class)
  qed
qed

lemma named_alt:
  "(\<exists>st \<in> set (rmatch True (Plus (Cls False [CRange CHR ''a'' CHR ''z''])) (i, s, c)).
      fst (snd st) = []) \<longleftrightarrow> named_color s"
proof -
  have "(\<exists>st \<in> set (rep_min (one (\<lambda>x. is_letter (of_char x))) 1 (length s) (i, s, c)).
           fst (snd st) = []) \<longleftrightarrow>
        1 \<le> length s \<and> length s \<le> 1 + length s \<and> list_all (\<lambda>c. is_letter (of_char c)) s"
    by (simp only: rep_one_ends)
  then show ?thesis
    by (cases s) (simp_all add: named_color_def letter_class)
qed

lemma seq_ends:
  "(\<exists>st \<in> set (rmatch ic (Seq r1 r2) st0). Q st) \<longleftrightarrow>
   (\<exists>st' \<in> set (rmatch ic r1 st0). \<exists>st \<in> set (rmatch ic r2 st'). Q st)"
  by auto

lemma rep_one_then:
  "(\<exists>st \<in> set (rep_min (one P) lo extra (i, s, c)). Q (fst (snd st))) \<longleftrightarrow>
   (\<exists>k. lo \<le> k \<and> k \<le> lo + extra \<and> k \<le> length (takeWhile P s) \<and> Q (drop k s))"
  (is "?L \<longleftrightarrow> ?R")
proof
  assume ?L
  then obtain j t c' where "(j, t, c') \<in> set (rep_min (one P) lo extra (i, s, c))" "Q t"
    by auto
  then show ?R by (auto simp: rep_min_one)
next
  assume ?R
  then obtain k where k: "lo \<le> k" "k \<le> lo + extra" "k \<le> length (takeWhile P s)" "Q (drop k s)"
    by blast
  then have "(i + k, drop k s, c) \<in> set (rep_min (one P) lo extra (i, s, c))"
    unfolding rep_min_one by blast
  with k(4) show ?L by force
qed

lemma run_then_char:
  "(\<exists>k. 1 \<le> k \<and> k \<le> length (takeWhile P b) \<and> drop k b = [z]) \<longleftrightarrow>
   b \<noteq> [] \<and> last b = z \<and> butlast b \<noteq> [] \<and> list_all P (butlast b)"
  (is "?L \<longleftrightarrow> ?R")
proof
  assume ?L
  then obtain k where k: "1 \<le> k" "k \<le> length (takeWhile P b)" "drop k b = [z]"
    by blast
  have b: "b = take k b @ [z]" using k(3) by (metis append_take_drop_id)
  have "length (takeWhile P b) \<le> length b" by (rule length_takeWhile_le)
  with k have len: "length (take k b) = k" by simp
  have "take k b = take k (takeWhile P b)"
    using k(2) by (metis takeWhile_dropWhile_id take_append diff_is_0_eq take_0 append_Nil2)
  then have "list_all P (take k b)"
    by (metis list_all_iff set_takeWhileD in_set_takeD)
  moreover from b have "butlast b = take k b" by (metis butlast_snoc)
  moreover from b have "last b = z" by (metis last_snoc)
  moreover from len k(1) have "take k b \<noteq> []" by auto
  moreover from b have "b \<noteq> []" by auto
  ultimately show ?R by simp
next
  assume r: ?R
  then have b: "b = butlast b @ [z]" by (metis append_butlast_last_id)
  from r have "takeWhile P (butlast b) = butlast b" by (simp add: list_all_iff)
  then have "length (butlast b) \<le> length (takeWhile P (butlast b @ [z]))"
    by (simp add: takeWhile_append list_all_iff)
  with b have "length (butlast b) \<le> length (takeWhile P b)" by simp
  moreover have "drop (length (butlast b)) b = [z]" using b by (metis append_eq_conv_conj)
  moreover from r have "1 \<le> length (butlast b)" by (cases "butlast b") auto
  ultimately show ?L by blast
qed

lemma paren_class: "(set_has True [CChar CHR '')''] x \<noteq> True) \<longleftrightarrow> x \<noteq> CHR '')''"
  using lit_plain [of "CHR '')''" True x] by (simp add: is_letter_def)

lemma close_ends:
  "(\<exists>st \<in> set (rmatch True (Str '')'') st'). fst (snd st) = []) \<longleftrightarrow> fst (snd st') = '')''"
proof -
  have plain: "\<And>x. set_has True [CChar CHR '')''] x \<longleftrightarrow> x = CHR '')''"
    by (rule lit_plain) (simp add: is_letter_def)
  obtain j t c where st': "st' = (j, t, c)" by (cases st')
  show ?thesis unfolding st' by (cases t) (auto simp: lits_Cons lits_Nil plain)
qed

lemma not_paren_plus:
  "rmatch True (Plus (Cls True [CChar CHR '')''])) (i, b, c) =
     rep_min (one (\<lambda>x. x \<noteq> CHR '')'')) 1 (length b) (i, b, c)"
  by (simp only: rmatch.simps paren_class fst_conv snd_conv)

lemma paren_tail:
  "(\<exists>st \<in> set (rmatch True (Seq (Str ''('') (Seq (Plus (Cls True [CChar CHR '')''])) (Str '')'')))
       (i, r, c)). fst (snd st) = []) \<longleftrightarrow> paren_body r"
proof (cases r)
  case Nil
  then show ?thesis by (simp add: lits_Cons paren_body_def)
next
  case (Cons p b)
  have plain: "set_has True [CChar CHR ''(''] p \<longleftrightarrow> p = CHR ''(''"
    by (rule lit_plain) (simp add: is_letter_def)
  show ?thesis
  proof (cases "p = CHR ''(''")
    case False
    with Cons plain show ?thesis by (simp add: lits_Cons paren_body_def)
  next
    case True
    have "(\<exists>st \<in> set (rmatch True (Seq (Plus (Cls True [CChar CHR '')''])) (Str '')'')) (Suc i, b, c)).
             fst (snd st) = []) \<longleftrightarrow>
          (\<exists>st' \<in> set (rep_min (one (\<lambda>x. x \<noteq> CHR '')'')) 1 (length b) (Suc i, b, c)).
             fst (snd st') = '')'')"
      by (simp only: seq_ends close_ends not_paren_plus)
    also have "\<dots> \<longleftrightarrow> (\<exists>k. 1 \<le> k \<and> k \<le> 1 + length b \<and>
                 k \<le> length (takeWhile (\<lambda>x. x \<noteq> CHR '')'') b) \<and> drop k b = '')'')"
      by (rule rep_one_then)
    also have "\<dots> \<longleftrightarrow> (\<exists>k. 1 \<le> k \<and> k \<le> length (takeWhile (\<lambda>x. x \<noteq> CHR '')'') b) \<and> drop k b = '')'')"
      using length_takeWhile_le [of "\<lambda>x. x \<noteq> CHR '')''" b] by (auto simp: le_Suc_eq)
    also have "\<dots> \<longleftrightarrow> b \<noteq> [] \<and> last b = CHR '')'' \<and> butlast b \<noteq> [] \<and>
                 list_all (\<lambda>x. x \<noteq> CHR '')'') (butlast b)"
      by (rule run_then_char)
    finally have "(\<exists>st \<in> set (rmatch True (Seq (Plus (Cls True [CChar CHR '')''])) (Str '')''))
              (Suc i, b, c)). fst (snd st) = []) \<longleftrightarrow>
          b \<noteq> [] \<and> last b = CHR '')'' \<and> butlast b \<noteq> [] \<and> list_all (\<lambda>x. x \<noteq> CHR '')'') (butlast b)" .
    moreover have "(\<exists>st \<in> set (rmatch True (Seq (Str ''('') (Seq (Plus (Cls True [CChar CHR '')''])) (Str '')'')))
       (i, r, c)). fst (snd st) = []) \<longleftrightarrow>
       (\<exists>st \<in> set (rmatch True (Seq (Plus (Cls True [CChar CHR '')''])) (Str '')''))
              (Suc i, b, c)). fst (snd st) = [])"
      unfolding seq_ends [of True "Str ''(''"] using Cons True plain
      by (simp add: lits_Cons lits_Nil)
    ultimately show ?thesis using Cons True by (simp add: paren_body_def)
  qed
qed

lemma lits_lower:
  assumes "list_all (\<lambda>a. 97 \<le> (of_char a :: nat) \<and> (of_char a :: nat) \<le> 122) w"
  shows "lits True w (i, s, c) =
           (if toLowerCase (take (length w) s) = w then [(i + length w, drop (length w) s, c)] else [])"
  using assms
proof (induction w arbitrary: i s)
  case Nil
  then show ?case by (simp add: lits_Nil toLowerCase_def)
next
  case (Cons a w)
  show ?case
  proof (cases s)
    case Nil
    then show ?thesis by (simp add: lits_Cons toLowerCase_def)
  next
    case (Cons x xs)
    from Cons.prems have a: "set_has True [CChar a] x \<longleftrightarrow> lower_char x = a"
      by (intro lit_lower) simp_all
    from Cons.prems have w: "list_all (\<lambda>a. 97 \<le> (of_char a :: nat) \<and> (of_char a :: nat) \<le> 122) w"
      by simp
    from Cons.IH [OF w, of "Suc i" xs] Cons a show ?thesis
      by (simp add: lits_Cons toLowerCase_def)
  qed
qed

lemma paren_tail_state:
  "(\<exists>st \<in> set (rmatch True (Seq (Str ''('') (Seq (Plus (Cls True [CChar CHR '')''])) (Str '')'')))
       st2). fst (snd st) = []) \<longleftrightarrow> paren_body (fst (snd st2))"
  by (cases st2) (simp only: paren_tail fst_conv snd_conv)

lemma opt_a:
  "(\<exists>st2 \<in> set (rmatch True (Opt (Str ''a'')) (j, t, c)). Q (fst (snd st2))) \<longleftrightarrow>
   toLowerCase (take 1 t) = ''a'' \<and> Q (drop 1 t) \<or> Q t"
proof -
  have "lits True ''a'' (j, t, c) =
          (if toLowerCase (take 1 t) = ''a'' then [(j + 1, drop 1 t, c)] else [])"
    using lits_lower [of "''a''" j t c] by simp
  then show ?thesis by auto
qed

lemma lower_rgba:
  "toLowerCase (take 4 s) = ''rgba'' \<longleftrightarrow>
   toLowerCase (take 3 s) = ''rgb'' \<and> toLowerCase (take 1 (drop 3 s)) = ''a''"
proof (cases "3 \<le> length s")
  case True
  have "take 4 s = take 3 s @ take 1 (drop 3 s)"
    using take_add [of 3 1 s] by simp
  then have split: "toLowerCase (take 4 s) = toLowerCase (take 3 s) @ toLowerCase (take 1 (drop 3 s))"
    by (simp add: toLowerCase_def)
  from True have "length (toLowerCase (take 3 s)) = length ''rgb''" by (simp add: toLowerCase_def)
  then have "toLowerCase (take 3 s) @ toLowerCase (take 1 (drop 3 s)) = ''rgb'' @ ''a'' \<longleftrightarrow>
             toLowerCase (take 3 s) = ''rgb'' \<and> toLowerCase (take 1 (drop 3 s)) = ''a''"
    by (intro append_eq_append_conv disjI1)
  with split show ?thesis by simp
next
  case False
  then have "length (toLowerCase (take 4 s)) < 3" "length (toLowerCase (take 3 s)) < 3"
    by (simp_all add: toLowerCase_def)
  then show ?thesis by auto
qed

lemma rgb_alt:
  "(\<exists>st \<in> set (rmatch True (Seq (Str ''rgb'') (Seq (Opt (Str ''a'')) (Seq (Str ''('')
        (Seq (Plus (Cls True [CChar CHR '')''])) (Str '')''))))) (i, s, c)).
      fst (snd st) = []) \<longleftrightarrow> rgb_function s"
proof -
  have l3: "lits True ''rgb'' (i, s, c) =
          (if toLowerCase (take 3 s) = ''rgb'' then [(i + 3, drop 3 s, c)] else [])"
    using lits_lower [of "''rgb''" i s c] by (simp add: numeral_3_eq_3)
  have "(\<exists>st \<in> set (rmatch True (Seq (Str ''rgb'') (Seq (Opt (Str ''a'')) (Seq (Str ''('')
        (Seq (Plus (Cls True [CChar CHR '')''])) (Str '')''))))) (i, s, c)).
      fst (snd st) = []) \<longleftrightarrow>
    (\<exists>st1 \<in> set (lits True ''rgb'' (i, s, c)).
       \<exists>st2 \<in> set (rmatch True (Opt (Str ''a'')) st1). paren_body (fst (snd st2)))"
    by (simp only: seq_ends [of True "Str ''rgb''"] seq_ends [of True "Opt (Str ''a'')"]
        paren_tail_state rmatch.simps(1))
  also have "\<dots> \<longleftrightarrow> toLowerCase (take 3 s) = ''rgb'' \<and>
       (toLowerCase (take 1 (drop 3 s)) = ''a'' \<and> paren_body (drop 1 (drop 3 s)) \<or>
        paren_body (drop 3 s))"
  proof (cases "toLowerCase (take 3 s) = ''rgb''")
    case True
    then have "lits True ''rgb'' (i, s, c) = [(i + 3, drop 3 s, c)]" by (simp add: l3)
    then have "(\<exists>st1 \<in> set (lits True ''rgb'' (i, s, c)).
       \<exists>st2 \<in> set (rmatch True (Opt (Str ''a'')) st1). paren_body (fst (snd st2))) \<longleftrightarrow>
       (\<exists>st2 \<in> set (rmatch True (Opt (Str ''a'')) (i + 3, drop 3 s, c)). paren_body (fst (snd st2)))"
      by (simp only: list.set bex_simps Un_empty_right insert_iff empty_iff) simp
    with True show ?thesis by (simp only: opt_a) simp
  next
    case False
    then have "lits True ''rgb'' (i, s, c) = []" by (simp add: l3)
    with False show ?thesis by simp
  qed
  also have "\<dots> \<longleftrightarrow> rgb_function s"
    by (auto simp: rgb_function_def lower_rgba)
  finally show ?thesis .
qed

lemma validColorPattern_shape: "re_test True validColorPattern s \<longleftrightarrow> color_shape s"
proof -
  have "re_test True validColorPattern s \<longleftrightarrow>
        (\<exists>st \<in> set (rmatch True
            (Alt (Seq (Str ''#'') (Rep 3 8 (Cls False [CRange CHR ''0'' CHR ''9'', CRange CHR ''a'' CHR ''f''])))
            (Alt (Seq (Str ''rgb'') (Seq (Opt (Str ''a'')) (Seq (Str ''('')
                    (Seq (Plus (Cls True [CChar CHR '')''])) (Str '')'')))))
                 (Plus (Cls False [CRange CHR ''a'' CHR ''z''])))) (0, s, Map.empty)). fst (snd st) = [])"
    unfolding validColorPattern_def by (simp only: re_test_anchored group_then_end)
  also have "\<dots> \<longleftrightarrow> hex_color s \<or> rgb_function s \<or> named_color s"
    by (simp only: rmatch.simps(4) set_append bex_Un hex_alt rgb_alt named_alt)
  finally show ?thesis by (simp only: color_shape_def)
qed

section \<open>Properties of normalizeBackgroundColor\<close>

text \<open>
  C8, as stated, fails on the empty string: it is neither absent nor \<^verbatim>\<open>"transparent"\<close> and
  has none of the three shapes, yet the normalizer does not fail on it.
\<close>

theorem normalize_empty_counterexample:
  "Some [] \<noteq> (None :: string option) \<and> [] \<noteq> ''transparent'' \<and> \<not> color_shape [] \<and>
   normalizeBackgroundColor (Some []) \<noteq> Inl (InvalidBackground [])"
  by (simp add: normalizeBackgroundColor_def color_shape_def hex_color_def rgb_function_def
      named_color_def toLowerCase_def)

text \<open>
  C8, amended. If the argument is absent, empty or equal to \<^verbatim>\<open>"transparent"\<close>, the
  normalizer returns \<^verbatim>\<open>"transparent"\<close>; otherwise, if the string is a hex colour, an rgb
  function or a named colour, it returns the string unchanged; otherwise it fails with the
  invalid-background error, which carries the string.
\<close>

theorem normalizeBackgroundColor_cases:
  "normalizeBackgroundColor bg =
     (if bg = None \<or> bg = Some [] \<or> bg = Some ''transparent'' then Inr ''transparent''
      else if color_shape (str_of bg) then Inr (str_of bg)
      else Inl (InvalidBackground (str_of bg)))"
  by (cases bg) (simp_all add: normalizeBackgroundColor_def validColorPattern_shape)

theorem normalizeBackgroundColor_cases_witness:
  "normalizeBackgroundColor None = Inr ''transparent'' \<and>
   normalizeBackgroundColor (Some ''transparent'') = Inr ''transparent'' \<and>
   normalizeBackgroundColor (Some ''#fff'') = Inr ''#fff'' \<and>
   normalizeBackgroundColor (Some ''rgb(255,255,255)'') = Inr ''rgb(255,255,255)'' \<and>
   normalizeBackgroundColor (Some ''white'') = Inr ''white'' \<and>
   normalizeBackgroundColor (Some ''not-a-color!'') = Inl (InvalidBackground ''not-a-color!'')"
  using normalizeBackgroundColor_cases [of None]
    normalizeBackgroundColor_cases [of "Some ''transparent''"]
    normalizeBackgroundColor_cases [of "Some ''#fff''"]
    normalizeBackgroundColor_cases [of "Some ''rgb(255,255,255)''"]
    normalizeBackgroundColor_cases [of "Some ''white''"]
    normalizeBackgroundColor_cases [of "Some ''not-a-color!''"]
  by (simp add: color_shape_def hex_color_def rgb_function_def named_color_def paren_body_def
      toLowerCase_def lower_char_def is_hex_digit_def is_letter_def)

text \<open>
  C10. On the empty string the normalizer returns \<^verbatim>\<open>"transparent"\<close>, as it does on an
  absent argument, and does not fail, although the empty string does not match the pattern
  of the accepted colours.
\<close>

theorem normalize_empty_is_transparent:
  "normalizeBackgroundColor (Some []) = Inr ''transparent'' \<and>
   normalizeBackgroundColor (Some []) = normalizeBackgroundColor None \<and>
   \<not> re_test True validColorPattern []"
  by (simp add: normalizeBackgroundColor_def validColorPattern_shape color_shape_def hex_color_def
      rgb_function_def named_color_def toLowerCase_def)

theorem normalize_empty_is_transparent_witness:
  "normalizeBackgroundColor (Some []) = Inr ''transparent''"
  by (rule normalize_empty_is_transparent [THEN conjunct1])

section \<open>Properties of parseSVGDimensions\<close>

lemma digit_class: "(set_has ic [CDigit] x \<noteq> False) = is_digit (of_char x)"
  by (auto simp: set_has_def other_case_def is_digit_def)

lemma plus_digit_states:
  "st1 \<in> set (rmatch ic (Plus (Cls False [CDigit])) (i, s, c)) \<longleftrightarrow>
   (\<exists>k. 1 \<le> k \<and> k \<le> length (takeWhile (\<lambda>x. is_digit (of_char x)) s) \<and> st1 = (i + k, drop k s, c))"
proof -
  have le: "length (takeWhile (\<lambda>x. is_digit (of_char x)) s) \<le> length s"
    by (rule length_takeWhile_le)
  have "rmatch ic (Plus (Cls False [CDigit])) (i, s, c) =
        rep_min (one (\<lambda>x. is_digit (of_char x))) 1 (length s) (i, s, c)"
    by (simp only: rmatch.simps digit_class fst_conv snd_conv)
  then show ?thesis
    using le by (cases st1) (auto simp only: rep_min_one)
qed

lemma opt_monotone:
  "st' \<in> set (rmatch ic (Opt r) st) \<Longrightarrow> st' = st \<or> fst st < fst st' \<and> st' \<in> set (rmatch ic r st)"
  by (auto split: if_splits)

lemma take_digits:
  assumes "k \<le> length (takeWhile P s)"
  shows "list_all P (take k s)"
proof -
  have "take k s = take k (takeWhile P s)"
    using assms by (metis takeWhile_dropWhile_id take_append diff_is_0_eq take_0 append_Nil2)
  then show ?thesis by (metis list_all_iff set_takeWhileD in_set_takeD)
qed

lemma is_numeral_int:
  assumes "g \<noteq> []" "list_all (\<lambda>c. is_digit (of_char c)) g"
  shows "is_numeral g"
proof -
  from assms(2) have tw: "takeWhile (\<lambda>c. is_digit (of_char c)) g = g"
    by (simp add: list_all_iff)
  from assms(2) have dw: "dropWhile (\<lambda>c. is_digit (of_char c)) g = []"
    by (simp add: list_all_iff)
  show ?thesis
    unfolding is_numeral_def digits_of_def after_digits_def tw dw using assms(1) by simp
qed

lemma is_numeral_frac:
  assumes "ip \<noteq> []" "list_all (\<lambda>c. is_digit (of_char c)) ip"
    "fp \<noteq> []" "list_all (\<lambda>c. is_digit (of_char c)) fp"
  shows "is_numeral (ip @ CHR ''.'' # fp)"
proof -
  have nd: "\<not> is_digit (of_char CHR ''.'')" by (simp add: is_digit_def)
  from assms(2) nd have tw: "takeWhile (\<lambda>c. is_digit (of_char c)) (ip @ CHR ''.'' # fp) = ip"
    by (simp add: takeWhile_append2 list_all_iff)
  from assms(2) nd have dw: "dropWhile (\<lambda>c. is_digit (of_char c)) (ip @ CHR ''.'' # fp) = CHR ''.'' # fp"
    by (simp add: dropWhile_append2 list_all_iff)
  show ?thesis
    unfolding is_numeral_def digits_of_def after_digits_def tw dw using assms by simp
qed

lemma dot_states:
  "st \<in> set (rmatch True (Str ''.'') (j, t, c)) \<longleftrightarrow> (\<exists>r. t = CHR ''.'' # r \<and> st = (Suc j, r, c))"
proof -
  have plain: "\<And>x. set_has True [CChar CHR ''.''] x \<longleftrightarrow> x = CHR ''.''"
    by (rule lit_plain) (simp add: is_letter_def)
  show ?thesis by (cases t) (auto simp: lits_Cons lits_Nil plain)
qed

lemma seq_mem:
  "st \<in> set (rmatch ic (Seq r1 r2) st0) \<longleftrightarrow>
   (\<exists>st' \<in> set (rmatch ic r1 st0). st \<in> set (rmatch ic r2 st'))"
  by auto

lemma numeral_states:
  assumes "(j, t, c') \<in> set (rmatch True numeral_re (i, s, c))"
  shows "c' = c \<and> i < j \<and> is_numeral (take (j - i) s)"
proof -
  let ?D = "\<lambda>x. is_digit (of_char x)"
  from assms obtain st1 where st1: "st1 \<in> set (rmatch True (Plus (Cls False [CDigit])) (i, s, c))"
    and rest: "(j, t, c') \<in> set (rmatch True (Opt (Seq (Str ''.'') (Plus (Cls False [CDigit])))) st1)"
    unfolding numeral_re_def seq_mem by blast
  from st1 obtain k where k: "1 \<le> k" "k \<le> length (takeWhile ?D s)" "st1 = (i + k, drop k s, c)"
    unfolding plus_digit_states by blast
  have kl: "k \<le> length s" using k(2) length_takeWhile_le [of ?D s] by simp
  have ip: "list_all ?D (take k s)" using k(2) by (rule take_digits)
  have ipne: "take k s \<noteq> []" using k(1) kl by (cases s) auto
  from opt_monotone [OF rest] show ?thesis
  proof
    assume "(j, t, c') = st1"
    with k have "j = i + k" "c' = c" by simp_all
    with k ip ipne show ?thesis by (simp add: is_numeral_int)
  next
    assume "fst st1 < fst (j, t, c') \<and>
      (j, t, c') \<in> set (rmatch True (Seq (Str ''.'') (Plus (Cls False [CDigit]))) st1)"
    then have "(j, t, c') \<in> set (rmatch True (Seq (Str ''.'') (Plus (Cls False [CDigit]))) st1)"
      by (rule conjunct2)
    then obtain st2 where st2: "st2 \<in> set (rmatch True (Str ''.'') (i + k, drop k s, c))"
      and fin: "(j, t, c') \<in> set (rmatch True (Plus (Cls False [CDigit])) st2)"
      unfolding seq_mem k(3) by blast
    from st2 obtain r where r: "drop k s = CHR ''.'' # r" "st2 = (Suc (i + k), r, c)"
      unfolding dot_states by blast
    from fin [unfolded r(2) plus_digit_states]
    obtain m where m: "1 \<le> m" "m \<le> length (takeWhile ?D r)" "(j, t, c') = (Suc (i + k) + m, drop m r, c)"
      by blast
    have ml: "m \<le> length r" using m(2) length_takeWhile_le [of ?D r] by simp
    have fp: "list_all ?D (take m r)" using m(2) by (rule take_digits)
    have fpne: "take m r \<noteq> []" using m(1) ml by (cases r) auto
    have "take (k + Suc m) s = take k s @ take (Suc m) (drop k s)"
      by (rule take_add)
    then have "take (k + Suc m) s = take k s @ CHR ''.'' # take m r"
      by (simp only: r(1) take_Suc_Cons)
    moreover from m have "j - i = k + Suc m" "c' = c" "i < j" by simp_all
    ultimately show ?thesis using ip ipne fp fpne by (simp add: is_numeral_frac)
  qed
qed

lemma group1_numeral:
  assumes "st' \<in> set (rmatch True (Group 1 numeral_re) st)"
  shows "\<exists>g. snd (snd st') 1 = Some g \<and> is_numeral g"
proof -
  obtain i s c where st: "st = (i, s, c)" by (cases st)
  from assms obtain x where x: "x \<in> set (rmatch True numeral_re (i, s, c))"
    and st': "st' = (fst x, fst (snd x), (snd (snd x))(1 \<mapsto> take (fst x - i) s))"
    unfolding st by auto
  obtain j t c' where xe: "x = (j, t, c')" by (cases x)
  from numeral_states [OF x [unfolded xe]] have "is_numeral (take (j - i) s)" by simp
  with st' xe show ?thesis by simp
qed

lemma one_caps: "y \<in> set (one P x) \<Longrightarrow> snd (snd y) = snd (snd x)"
  by (cases x) (auto simp: one_def split: list.splits if_splits)

lemma lits_caps: "y \<in> set (lits ic w x) \<Longrightarrow> snd (snd y) = snd (snd x)"
  by (cases x) (auto simp: lits_def split: if_splits)

lemma units_caps: "y \<in> set (rmatch ic units x) \<Longrightarrow> snd (snd y) = snd (snd x)"
  unfolding units_def by (auto simp only: rmatch.simps set_append Un_iff dest: lits_caps)

lemma unit_quote_caps:
  assumes "st'' \<in> set (rmatch True (Seq (Opt (Group 2 units)) quote) st')"
  shows "snd (snd st'') 1 = snd (snd st') 1"
proof -
  from assms obtain x where x: "x \<in> set (rmatch True (Opt (Group 2 units)) st')"
    and q: "st'' \<in> set (rmatch True quote x)"
    unfolding seq_mem by blast
  from q have same: "snd (snd st'') = snd (snd x)"
    unfolding quote_def by (simp only: rmatch.simps) (rule one_caps)
  from opt_monotone [OF x] have "snd (snd x) 1 = snd (snd st') 1"
  proof
    assume "x = st'"
    then show ?thesis by simp
  next
    assume "fst st' < fst x \<and> x \<in> set (rmatch True (Group 2 units) st')"
    then obtain y where "y \<in> set (rmatch True units st')"
      and "x = (fst y, fst (snd y), (snd (snd y))(2 \<mapsto> take (fst y - fst st') (fst (snd st'))))"
      by auto
    then show ?thesis using units_caps [of y True st'] by simp
  qed
  with same show ?thesis by simp
qed

lemma attr_numeral_state:
  assumes "st \<in> set (rmatch True (attr_re name) st0)"
  shows "\<exists>g. snd (snd st) 1 = Some g \<and> is_numeral g"
proof -
  from assms obtain d e where e: "e \<in> set (rmatch True (Group 1 numeral_re) d)"
    and st: "st \<in> set (rmatch True (Seq (Opt (Group 2 units)) quote) e)"
    unfolding attr_re_def
      seq_mem [of _ True "Cls False [CSpace]"] seq_mem [of _ True "Str name"]
      seq_mem [of _ True "Str ''=''"] seq_mem [of _ True quote]
      seq_mem [of _ True "Group 1 numeral_re"]
    by blast
  from group1_numeral [OF e] unit_quote_caps [OF st] show ?thesis by simp
qed

lemma exec_from_Some:
  "exec_from ic r i s = Some m \<Longrightarrow>
   \<exists>k st. k \<le> length s \<and> st \<in> set (rmatch ic r (i + k, drop k s, Map.empty)) \<and>
          m = (i + k, fst st, snd (snd st))"
proof (induction s arbitrary: i)
  case Nil
  then obtain st sts where "rmatch ic r (i, [], Map.empty) = st # sts" "m = (i, fst st, snd (snd st))"
    by (auto split: list.splits)
  then show ?case by (intro exI [of _ 0] exI [of _ st]) simp
next
  case (Cons x xs)
  show ?case
  proof (cases "rmatch ic r (i, x # xs, Map.empty)")
    case Nil
    with Cons.prems have "exec_from ic r (Suc i) xs = Some m" by simp
    from Cons.IH [OF this] obtain k st where "k \<le> length xs"
      "st \<in> set (rmatch ic r (Suc i + k, drop k xs, Map.empty))" "m = (Suc i + k, fst st, snd (snd st))"
      by blast
    then show ?thesis by (intro exI [of _ "Suc k"] exI [of _ st]) simp
  next
    case (Cons st sts)
    with Cons.prems have "m = (i, fst st, snd (snd st))" by simp
    with Cons show ?thesis by (intro exI [of _ 0] exI [of _ st]) simp
  qed
qed

lemma str_match_attr:
  assumes "str_match True (attr_re name) doc = Some m"
  shows "\<exists>g. m 1 = Some g \<and> is_numeral g"
proof -
  from assms obtain e where "exec_from True (attr_re name) 0 doc = Some e" "m = snd (snd e)"
    by (auto simp: str_match_def)
  with exec_from_Some [of True "attr_re name" 0 doc e]
  obtain st0 st where "st \<in> set (rmatch True (attr_re name) st0)" "m = snd (snd st)"
    by auto
  with attr_numeral_state show ?thesis by blast
qed

lemma attr_numeral_None:
  "attr_numeral name doc = None \<longleftrightarrow> str_match True (attr_re name) doc = None"
  using str_match_attr [of name doc]
  by (auto simp: attr_numeral_def split: option.splits)

lemma attr_numeral_Some:
  "attr_numeral name doc = Some g \<Longrightarrow> is_numeral g"
  using str_match_attr [of name doc]
  by (auto simp: attr_numeral_def split: option.splits)

lemma parseFloat_numeral:
  assumes "is_numeral g"
  shows "parseFloat g = num_of_real (numeral_value g)"
proof -
  let ?D = "\<lambda>c. is_digit (of_char c)"
  from assms have ne: "takeWhile ?D g \<noteq> []" by (simp add: is_numeral_def digits_of_def)
  then obtain x xs where g: "g = x # xs" and dx: "is_digit (of_char x)"
    by (cases g) (auto split: if_splits)
  from dx have nsp: "\<not> is_space (of_char x)" by (auto simp: is_digit_def is_space_def)
  from dx have nsign: "x \<noteq> CHR ''-''" "x \<noteq> CHR ''+''" "x \<noteq> CHR ''I''"
    by (auto simp: is_digit_def)
  have pf: "parseFloat g = (case unsigned_literal g of None \<Rightarrow> NaN | Some v \<Rightarrow> v)"
    using g nsp nsign by (simp add: parseFloat_def)
  have ninf: "take 8 g \<noteq> ''Infinity''" using g nsign by auto
  from assms have dne: "digits_of g \<noteq> []" by (simp add: is_numeral_def)
  have dec0: "dec_value [] = 0" by (simp add: dec_value_def)
  show ?thesis
  proof (cases "after_digits g")
    case Nil
    with dne ninf have "unsigned_literal g = Some (num_of_real (real (dec_value (digits_of g))))"
      by (simp add: unsigned_literal_def exponent_of_def scale10_def dec0)
    with pf Nil show ?thesis by (simp add: numeral_value_def)
  next
    case (Cons d fp)
    with assms have d: "d = CHR ''.''" and fp: "fp \<noteq> []" "list_all ?D fp"
      by (simp_all add: is_numeral_def)
    from fp(2) have tw: "digits_of fp = fp" and dw: "after_digits fp = []"
      by (simp_all add: digits_of_def after_digits_def list_all_iff)
    from ninf dne Cons d have "unsigned_literal g =
        Some (num_of_real (real (dec_value (digits_of g)) + real (dec_value fp) / 10 ^ length fp))"
      by (simp add: unsigned_literal_def tw dw exponent_of_def scale10_def)
    with pf Cons show ?thesis by (simp add: numeral_value_def)
  qed
qed

lemma numeral_value_nonneg: "0 \<le> numeral_value g"
  by (simp add: numeral_value_def split: list.splits)

lemma num_of_real_nonneg: "0 \<le> v \<Longrightarrow> js_le (Fin 0) (num_of_real v)"
  using rnd_nonneg [of v] by (simp add: num_of_real_def to_double_def js_le_def)

lemma parseSVGDimensions_read:
  "rf svgPath = Inr doc \<Longrightarrow> parseSVGDimensions rf svgPath = dimensions_of_text doc"
  by (simp add: parseSVGDimensions_def)

lemma extraction_steps:
  "dimensions_of_text doc =
     (case (attr_numeral ''width'' doc, attr_numeral ''height'' doc) of
        (Some gw, Some gh) \<Rightarrow>
          Inr \<lparr>width = num_of_real (numeral_value gw), height = num_of_real (numeral_value gh)\<rparr>
      | _ \<Rightarrow>
          (case viewBox_pieces doc of
             Some [p0, p1, p2, p3] \<Rightarrow>
               Inr \<lparr>width = js_sub (parseFloat p2) (parseFloat p0),
                    height = js_sub (parseFloat p3) (parseFloat p1)\<rparr>
           | _ \<Rightarrow> Inl DimensionsUnavailable))"
proof -
  have vb: "(case str_match True viewBox_re doc of
                Some vm \<Rightarrow>
                  (let values = map parseFloat
                         (str_split False separator_re (case vm 1 of None \<Rightarrow> [] | Some g \<Rightarrow> g))
                   in if length values = 4
                      then Inr \<lparr>width = js_sub (values ! 2) (values ! 0),
                                height = js_sub (values ! 3) (values ! 1)\<rparr>
                      else Inl DimensionsUnavailable)
              | None \<Rightarrow> Inl DimensionsUnavailable) =
            (case viewBox_pieces doc of
             Some [p0, p1, p2, p3] \<Rightarrow>
               Inr \<lparr>width = js_sub (parseFloat p2) (parseFloat p0),
                    height = js_sub (parseFloat p3) (parseFloat p1)\<rparr>
           | _ \<Rightarrow> Inl DimensionsUnavailable)" (is "?V = ?W")
  proof (cases "str_match True viewBox_re doc")
    case None
    then show ?thesis by (simp add: viewBox_pieces_def)
  next
    case (Some vm)
    have s: "(case vm 1 of None \<Rightarrow> [] | Some g \<Rightarrow> g) = str_of (vm 1)"
      by (cases "vm 1") simp_all
    show ?thesis
      unfolding Some viewBox_pieces_def option.case s Let_def
      by (cases "str_split False separator_re (str_of (vm 1))" rule: list.exhaust)
         (auto split: list.splits)
  qed
  show ?thesis
  proof (cases "str_match True (attr_re ''width'') doc")
    case None
    then have "attr_numeral ''width'' doc = None" by (simp add: attr_numeral_def)
    with None vb show ?thesis by (simp add: dimensions_of_text_def)
  next
    case (Some wm)
    from str_match_attr [OF Some] obtain gw where gw: "wm 1 = Some gw" "is_numeral gw" by blast
    then have aw: "attr_numeral ''width'' doc = Some gw" using Some by (simp add: attr_numeral_def)
    show ?thesis
    proof (cases "str_match True (attr_re ''height'') doc")
      case None
      then have "attr_numeral ''height'' doc = None" by (simp add: attr_numeral_def)
      with None Some aw vb show ?thesis by (simp add: dimensions_of_text_def)
    next
      case (Some hm)
      from str_match_attr [OF Some] obtain gh where gh: "hm 1 = Some gh" "is_numeral gh" by blast
      then have ah: "attr_numeral ''height'' doc = Some gh" using Some by (simp add: attr_numeral_def)
      from \<open>str_match True (attr_re ''width'') doc = Some wm\<close> Some gw gh aw ah show ?thesis
        by (simp add: dimensions_of_text_def parseFloat_numeral)
    qed
  qed
qed

lemmas evaluate = parseSVGDimensions_def file_with_def dimensions_of_text_def attr_numeral_def
  viewBox_pieces_def str_match_def attr_re_def numeral_re_def units_def quote_def viewBox_re_def
  separator_re_def one_def lits_def set_has_def other_case_def is_digit_def is_space_def
  parseFloat_def unsigned_literal_def digits_of_def after_digits_def dec_value_def exponent_of_def
  scale10_def str_split_def num_eval

text \<open>
  C3, as stated, fails. The attributes \<^verbatim>\<open>width="0" height="0"\<close> give the size 0 by 0, and
  the viewBox \<^verbatim>\<open>10 10 5 5\<close> gives the size -5 by -5: the extractor returns both, and
  neither is strictly positive.
\<close>

theorem zero_size_counterexample:
  \<open>parseSVGDimensions (file_with ''<svg width="0" height="0">'') ''a.svg'' =
     Inr \<lparr>width = Fin 0, height = Fin 0\<rparr> \<and>
   parseSVGDimensions (file_with ''<svg viewBox="10 10 5 5">'') ''a.svg'' =
     Inr \<lparr>width = Fin (- 5), height = Fin (- 5)\<rparr>\<close>
  by (simp add: evaluate)

text \<open>
  C3, amended. If the extractor returns a Size and the text has both a numeric width
  attribute and a numeric height attribute, so that the Size comes from them, then both
  components are non-negative numbers: not negative and not NaN. They can be zero.
\<close>

theorem attribute_size_nonnegative:
  assumes "rf svgPath = Inr doc" "parseSVGDimensions rf svgPath = Inr d"
    "attr_numeral ''width'' doc \<noteq> None" "attr_numeral ''height'' doc \<noteq> None"
  shows "js_le (Fin 0) (width d) \<and> js_le (Fin 0) (height d)"
proof -
  from assms(3,4) obtain gw gh where g: "attr_numeral ''width'' doc = Some gw"
      "attr_numeral ''height'' doc = Some gh"
    by auto
  from assms(1,2) have "dimensions_of_text doc = Inr d" by (simp add: parseSVGDimensions_read)
  with g have "d = \<lparr>width = num_of_real (numeral_value gw), height = num_of_real (numeral_value gh)\<rparr>"
    by (simp add: extraction_steps)
  then show ?thesis by (simp add: num_of_real_nonneg numeral_value_nonneg)
qed

theorem attribute_size_nonnegative_witness:
  \<open>js_le (Fin 0) (width \<lparr>width = Fin 100, height = Fin 50.5\<rparr>) \<and>
   js_le (Fin 0) (height \<lparr>width = Fin 100, height = Fin 50.5\<rparr>) \<and>
   parseSVGDimensions (file_with ''<svg width="100" height="50.5px">'') ''a.svg'' =
     Inr \<lparr>width = Fin 100, height = Fin 50.5\<rparr>\<close>
proof -
  have a: \<open>file_with ''<svg width="100" height="50.5px">'' ''a.svg'' = Inr ''<svg width="100" height="50.5px">''\<close>
    by (simp add: file_with_def)
  have b: \<open>parseSVGDimensions (file_with ''<svg width="100" height="50.5px">'') ''a.svg'' =
     Inr \<lparr>width = Fin 100, height = Fin 50.5\<rparr>\<close>
    by (simp add: evaluate)
  have c: \<open>attr_numeral ''width'' ''<svg width="100" height="50.5px">'' \<noteq> None\<close>
    by (simp add: evaluate)
  have d: \<open>attr_numeral ''height'' ''<svg width="100" height="50.5px">'' \<noteq> None\<close>
    by (simp add: evaluate)
  from attribute_size_nonnegative [OF a b c d] b show ?thesis by (intro conjI) simp_all
qed

text \<open>
  C4, as stated, fails. The value of the first viewBox below has exactly four numeric
  tokens, separated by white space, but the space in front makes the split give five
  pieces, the first one empty, and the extractor fails. The value of the second one has no
  numeric token at all, and the extractor does not fail: it returns NaN by NaN.
\<close>

theorem viewBox_pieces_counterexample:
  \<open>parseSVGDimensions (file_with ''<svg viewBox=" 0 0 100 100">'') ''a.svg'' =
     Inl DimensionsUnavailable \<and>
   parseSVGDimensions (file_with ''<svg viewBox="a b c d">'') ''a.svg'' =
     Inr \<lparr>width = NaN, height = NaN\<rparr>\<close>
  by (simp add: evaluate)

text \<open>
  C4, amended. The extractor applies this order, the first match winning. (1) If the text has
  both a numeric width attribute and a numeric height attribute, it returns the values of
  their two numerals as numbers, that is the nearest doubles, the unit suffix discarded; if
  only one of the two is found this step does not match. (2) Else, if a viewBox attribute is
  found and its value, split at the runs of white space and commas, has exactly four pieces
  \<open>p0, p1, p2, p3\<close>, it returns
  \<open>(parseFloat p2 - parseFloat p0, parseFloat p3 - parseFloat p1)\<close>; a piece need not be a
  number, a separator in front or at the end counts as an empty piece, and the differences
  are those of the program, on doubles: the viewBox \<^verbatim>\<open>0.1 0 0.4 1\<close> gives the width
  0.30000000000000004. (3) Else it fails with the dimensions-unavailable error.
\<close>

theorem extraction_order:
  assumes "rf svgPath = Inr doc"
  shows "parseSVGDimensions rf svgPath =
     (case (attr_numeral ''width'' doc, attr_numeral ''height'' doc) of
        (Some gw, Some gh) \<Rightarrow>
          Inr \<lparr>width = num_of_real (numeral_value gw), height = num_of_real (numeral_value gh)\<rparr>
      | _ \<Rightarrow>
          (case viewBox_pieces doc of
             Some [p0, p1, p2, p3] \<Rightarrow>
               Inr \<lparr>width = js_sub (parseFloat p2) (parseFloat p0),
                    height = js_sub (parseFloat p3) (parseFloat p1)\<rparr>
           | _ \<Rightarrow> Inl DimensionsUnavailable)) \<and>
     (\<forall>g. attr_numeral ''width'' doc = Some g \<or> attr_numeral ''height'' doc = Some g \<longrightarrow>
          is_numeral g)"
  using assms by (auto simp only: parseSVGDimensions_read extraction_steps dest: attr_numeral_Some)

theorem extraction_order_witness:
  \<open>parseSVGDimensions (file_with ''<svg viewBox="0 0 200 150">'') ''a.svg'' =
     Inr \<lparr>width = Fin 200, height = Fin 150\<rparr> \<and>
   parseSVGDimensions (file_with ''<svg width="100" viewBox="0,0 200 150">'') ''a.svg'' =
     Inr \<lparr>width = Fin 200, height = Fin 150\<rparr> \<and>
   parseSVGDimensions (file_with ''<svg width="100pt" height="50.5" viewBox="0 0 200 150">'') ''a.svg'' =
     Inr \<lparr>width = Fin 100, height = Fin 50.5\<rparr> \<and>
   parseSVGDimensions (file_with ''<svg height="100">'') ''a.svg'' = Inl DimensionsUnavailable \<and>
   parseSVGDimensions (file_with ''<svg viewBox="0.1 0 0.4 1">'') ''a.svg'' =
     Inr \<lparr>width = Fin (1351079888211149 / 4503599627370496), height = Fin 1\<rparr>\<close>
proof -
  have 1: \<open>attr_numeral ''width'' ''<svg viewBox="0 0 200 150">'' = None\<close>
    \<open>viewBox_pieces ''<svg viewBox="0 0 200 150">'' = Some [''0'', ''0'', ''200'', ''150'']\<close>
    by (simp_all add: evaluate)
  have 2: \<open>attr_numeral ''width'' ''<svg width="100" viewBox="0,0 200 150">'' = Some ''100''\<close>
    \<open>attr_numeral ''height'' ''<svg width="100" viewBox="0,0 200 150">'' = None\<close>
    \<open>viewBox_pieces ''<svg width="100" viewBox="0,0 200 150">'' = Some [''0'', ''0'', ''200'', ''150'']\<close>
    by (simp_all add: evaluate)
  have 3: \<open>attr_numeral ''width'' ''<svg width="100pt" height="50.5" viewBox="0 0 200 150">'' = Some ''100''\<close>
    \<open>attr_numeral ''height'' ''<svg width="100pt" height="50.5" viewBox="0 0 200 150">'' = Some ''50.5''\<close>
    by (simp_all add: evaluate)
  have 4: \<open>attr_numeral ''width'' ''<svg height="100">'' = None\<close>
    \<open>viewBox_pieces ''<svg height="100">'' = None\<close>
    by (simp_all add: evaluate)
  have 5: \<open>attr_numeral ''width'' ''<svg viewBox="0.1 0 0.4 1">'' = None\<close>
    \<open>viewBox_pieces ''<svg viewBox="0.1 0 0.4 1">'' = Some [''0.1'', ''0'', ''0.4'', ''1'']\<close>
    by (simp_all add: evaluate)
  have p: "parseFloat ''0'' = Fin 0" "parseFloat ''200'' = Fin 200" "parseFloat ''150'' = Fin 150"
    "parseFloat ''1'' = Fin 1"
    "parseFloat ''0.1'' = Fin (3602879701896397 / 36028797018963968)"
    "parseFloat ''0.4'' = Fin (3602879701896397 / 9007199254740992)"
    by (simp_all add: evaluate)
  have s: "js_sub (Fin 200) (Fin 0) = Fin 200" "js_sub (Fin 150) (Fin 0) = Fin 150"
    "js_sub (Fin 1) (Fin 0) = Fin 1"
    "js_sub (Fin (3602879701896397 / 9007199254740992)) (Fin (3602879701896397 / 36028797018963968)) =
       Fin (1351079888211149 / 4503599627370496)"
    by (simp_all add: num_eval)
  have v: "num_of_real (numeral_value ''100'') = Fin 100" "num_of_real (numeral_value ''50.5'') = Fin 50.5"
    by (simp_all add: numeral_value_def evaluate)
  have f: "\<And>doc. file_with doc ''a.svg'' = Inr doc" by (simp add: file_with_def)
  show ?thesis
    using extraction_order [of \<open>file_with ''<svg viewBox="0 0 200 150">''\<close> \<open>''a.svg''\<close> \<open>''<svg viewBox="0 0 200 150">''\<close>, OF f]
      extraction_order [of \<open>file_with ''<svg width="100" viewBox="0,0 200 150">''\<close> \<open>''a.svg''\<close> \<open>''<svg width="100" viewBox="0,0 200 150">''\<close>, OF f]
      extraction_order [of \<open>file_with ''<svg width="100pt" height="50.5" viewBox="0 0 200 150">''\<close> \<open>''a.svg''\<close> \<open>''<svg width="100pt" height="50.5" viewBox="0 0 200 150">''\<close>, OF f]
      extraction_order [of \<open>file_with ''<svg height="100">''\<close> \<open>''a.svg''\<close> \<open>''<svg height="100">''\<close>, OF f]
      extraction_order [of \<open>file_with ''<svg viewBox="0.1 0 0.4 1">''\<close> \<open>''a.svg''\<close> \<open>''<svg viewBox="0.1 0 0.4 1">''\<close>, OF f]
    by (simp add: 1 2 3 4 5 p v s)
qed

section \<open>Properties of convert\<close>

lemma sample_path: "validateInputFile (\<lambda>p. True) (\<lambda>p. True) ''a.svg'' = Inr ()"
  by (simp add: validateInputFile_def endsWith_def toLowerCase_def lower_char_def)

lemma sample_output: "generateOutputPath ''a.svg'' None = ''a.png''"
  by (simp add: generateOutputPath_def str_replace_def svg_ext_re_def lits_def set_has_def
      other_case_def)

lemma sample_no_size: \<open>parseSVGDimensions (file_with ''<svg/>'') ''a.svg'' = Inl DimensionsUnavailable\<close>
  by (simp add: evaluate)

lemma sample_size: \<open>parseSVGDimensions (file_with ''<svg width="10" height="10"/>'') ''a.svg'' =
    Inr \<lparr>width = Fin 10, height = Fin 10\<rparr>\<close>
  by (simp add: evaluate)

lemma sample_resolved:
  "calculateDimensions \<lparr>width = Fin 300, height = Fin 300\<rparr>
     \<lparr>o_width = None, o_height = None, o_scale = None\<rparr> = \<lparr>width = Fin 300, height = Fin 300\<rparr>"
  "calculateDimensions \<lparr>width = Fin 10, height = Fin 10\<rparr>
     \<lparr>o_width = None, o_height = None, o_scale = None\<rparr> = \<lparr>width = Fin 10, height = Fin 10\<rparr>"
  "calculateDimensions \<lparr>width = Fin 10, height = Fin 10\<rparr>
     \<lparr>o_width = Some (Fin 20), o_height = None, o_scale = None\<rparr> = \<lparr>width = Fin 20, height = Fin 20\<rparr>"
  by (simp_all add: calculateDimensions_def Let_def num_eval)

text \<open>
  C9, as stated, fails for the size extractor. On a text without a size the extractor
  raises, and the conversion does not return a failed outcome: the inner handler asks the
  browser, and the conversion succeeds with the measured size.
\<close>

theorem fallback_counterexample:
  \<open>parseSVGDimensions
      (readFile (sample_world True ''<svg/>'' (Inr \<lparr>width = Fin 300, height = Fin 300\<rparr>) (Inr ())))
      (inputPath (sample_options None None)) = Inl DimensionsUnavailable \<and>
   convert (sample_world True ''<svg/>'' (Inr \<lparr>width = Fin 300, height = Fin 300\<rparr>) (Inr ()))
      (sample_options None None) =
     \<lparr>success = True, r_outputPath = ''a.png'',
      dimensions = \<lparr>width = Fin 300, height = Fin 300\<rparr>, error = None\<rparr>\<close>
  by (simp add: convert_def convert_body_def and_then_def intrinsic_dimensions_def sample_world_def
      sample_options_def sample_path sample_output sample_no_size validateOptions_def
      normalizeBackgroundColor_def sample_resolved)

text \<open>
  C9, amended. The conversion never propagates an exception. A failure raised by the input
  validation, the option validation, the background normalization, or the rendering and
  writing is returned as an outcome with \<open>success = False\<close> and the error. A failure of the
  size extractor is caught on its own and the browser is asked for the size instead; only
  a failure of that measurement is returned as a failed outcome. The size \<open>d\<close> the later
  stages work with is the extracted one when the extractor returns, and the measured one
  when the extractor fails and the measurement returns. A run in which every stage
  returns gives \<open>success = True\<close> with the dimensions resolved from \<open>d\<close> and no error. Every
  outcome has exactly one of the two shapes: it is a success exactly when it carries no
  error.
\<close>

theorem convert_outcomes:
  "(success (convert w options) \<longleftrightarrow> error (convert w options) = None) \<and>
   (\<forall>e. validateInputFile (existsSync w) (readable w) (inputPath options) = Inl e \<longrightarrow>
        convert w options = failed options e) \<and>
   (\<forall>e. validateInputFile (existsSync w) (readable w) (inputPath options) = Inr () \<and>
        validateOptions options = Inl e \<longrightarrow>
        convert w options = failed options e) \<and>
   (\<forall>e e'. validateInputFile (existsSync w) (readable w) (inputPath options) = Inr () \<and>
        validateOptions options = Inr () \<and>
        parseSVGDimensions (readFile w) (inputPath options) = Inl e' \<and>
        getDimensionsFromBrowser w (inputPath options) = Inl e \<longrightarrow>
        convert w options = failed options e) \<and>
   (\<forall>e d. validateInputFile (existsSync w) (readable w) (inputPath options) = Inr () \<and>
        validateOptions options = Inr () \<and>
        (parseSVGDimensions (readFile w) (inputPath options) = Inr d \<or>
         (\<exists>e'. parseSVGDimensions (readFile w) (inputPath options) = Inl e') \<and>
         getDimensionsFromBrowser w (inputPath options) = Inr d) \<and>
        normalizeBackgroundColor (background options) = Inl e \<longrightarrow>
        convert w options = failed options e) \<and>
   (\<forall>e d bg. validateInputFile (existsSync w) (readable w) (inputPath options) = Inr () \<and>
        validateOptions options = Inr () \<and>
        (parseSVGDimensions (readFile w) (inputPath options) = Inr d \<or>
         (\<exists>e'. parseSVGDimensions (readFile w) (inputPath options) = Inl e') \<and>
         getDimensionsFromBrowser w (inputPath options) = Inr d) \<and>
        normalizeBackgroundColor (background options) = Inr bg \<and>
        convertWithPuppeteer w (inputPath options)
          (generateOutputPath (inputPath options) (outputPath options))
          (calculateDimensions d \<lparr>o_width = o_width options, o_height = o_height options,
             o_scale = o_scale options\<rparr>) bg (o_quality options) = Inl e \<longrightarrow>
        convert w options = failed options e) \<and>
   (\<forall>d bg. validateInputFile (existsSync w) (readable w) (inputPath options) = Inr () \<and>
        validateOptions options = Inr () \<and>
        (parseSVGDimensions (readFile w) (inputPath options) = Inr d \<or>
         (\<exists>e'. parseSVGDimensions (readFile w) (inputPath options) = Inl e') \<and>
         getDimensionsFromBrowser w (inputPath options) = Inr d) \<and>
        normalizeBackgroundColor (background options) = Inr bg \<and>
        convertWithPuppeteer w (inputPath options)
          (generateOutputPath (inputPath options) (outputPath options))
          (calculateDimensions d \<lparr>o_width = o_width options, o_height = o_height options,
             o_scale = o_scale options\<rparr>) bg (o_quality options) = Inr () \<longrightarrow>
        convert w options =
          \<lparr>success = True,
           r_outputPath = generateOutputPath (inputPath options) (outputPath options),
           dimensions = calculateDimensions d \<lparr>o_width = o_width options,
             o_height = o_height options, o_scale = o_scale options\<rparr>,
           error = None\<rparr>)"
proof -
  have shape: "success (convert w options) \<longleftrightarrow> error (convert w options) = None"
    by (simp add: convert_def split: sum.splits prod.splits)
  have size: "intrinsic_dimensions w (inputPath options) = Inr d"
    if "parseSVGDimensions (readFile w) (inputPath options) = Inr d \<or>
         (\<exists>e'. parseSVGDimensions (readFile w) (inputPath options) = Inl e') \<and>
         getDimensionsFromBrowser w (inputPath options) = Inr d" for d
    using that by (auto simp: intrinsic_dimensions_def)
  show ?thesis
    by (intro conjI allI impI shape)
      (auto simp add: convert_def convert_body_def and_then_def failed_def intrinsic_dimensions_def)
qed

theorem convert_outcomes_witness:
  \<open>convert (sample_world False ''<svg/>'' (Inl (External ''no browser'')) (Inr ())) (sample_options None None) =
     failed (sample_options None None) (InputNotFound ''a.svg'') \<and>
   convert (sample_world True ''<svg/>'' (Inl (External ''no browser'')) (Inr ()))
       (sample_options (Some (Fin (- 100))) None) =
     failed (sample_options (Some (Fin (- 100))) None) (InvalidWidth (Fin (- 100))) \<and>
   convert (sample_world True ''<svg/>'' (Inl (External ''no browser'')) (Inr ())) (sample_options None None) =
     failed (sample_options None None) (External ''no browser'') \<and>
   convert (sample_world True ''<svg width="10" height="10"/>'' (Inl (External ''no browser'')) (Inr ()))
       (sample_options None (Some ''no-color!'')) =
     failed (sample_options None (Some ''no-color!'')) (InvalidBackground ''no-color!'') \<and>
   convert (sample_world True ''<svg width="10" height="10"/>'' (Inl (External ''no browser''))
       (Inl (External ''not written''))) (sample_options None None) =
     failed (sample_options None None) (External ''not written'') \<and>
   convert (sample_world True ''<svg width="10" height="10"/>'' (Inl (External ''no browser'')) (Inr ()))
       (sample_options (Some (Fin 20)) None) =
     \<lparr>success = True, r_outputPath = ''a.png'',
      dimensions = \<lparr>width = Fin 20, height = Fin 20\<rparr>, error = None\<rparr> \<and>
   convert (sample_world True ''<svg/>'' (Inr \<lparr>width = Fin 10, height = Fin 10\<rparr>) (Inr ()))
       (sample_options (Some (Fin 20)) None) =
     \<lparr>success = True, r_outputPath = ''a.png'',
      dimensions = \<lparr>width = Fin 20, height = Fin 20\<rparr>, error = None\<rparr>\<close>
proof -
  have nf: "validateInputFile (\<lambda>p. False) (\<lambda>p. True) ''a.svg'' = Inl (InputNotFound ''a.svg'')"
    by (simp add: validateInputFile_def)
  have vo: "validateOptions (sample_options None bg) = Inr ()"
    "validateOptions (sample_options (Some (Fin 20)) bg) = Inr ()"
    "validateOptions (sample_options (Some (Fin (- 100))) bg) = Inl (InvalidWidth (Fin (- 100)))" for bg
    by (simp_all add: validateOptions_def sample_options_def js_le_def)
  have bg: "normalizeBackgroundColor None = Inr ''transparent''"
    "normalizeBackgroundColor (Some ''no-color!'') = Inl (InvalidBackground ''no-color!'')"
    by (simp_all add: normalizeBackgroundColor_def validColorPattern_shape color_shape_def
        hex_color_def rgb_function_def named_color_def toLowerCase_def lower_char_def is_letter_def)
  note facts = sample_world_def sample_options_def [of None] sample_options_def [of "Some (Fin 20)"]
    sample_options_def [of "Some (Fin (- 100))"] sample_path sample_output sample_no_size sample_size
    sample_resolved
  show ?thesis
    using
      convert_outcomes [of "sample_world False ''<svg/>'' (Inl (External ''no browser'')) (Inr ())"
        "sample_options None None"]
      convert_outcomes [of "sample_world True ''<svg/>'' (Inl (External ''no browser'')) (Inr ())"
        "sample_options (Some (Fin (- 100))) None"]
      convert_outcomes [of "sample_world True ''<svg/>'' (Inl (External ''no browser'')) (Inr ())"
        "sample_options None None"]
      convert_outcomes [of \<open>sample_world True ''<svg width="10" height="10"/>'' (Inl (External ''no browser'')) (Inr ())\<close>
        "sample_options None (Some ''no-color!'')"]
      convert_outcomes [of \<open>sample_world True ''<svg width="10" height="10"/>'' (Inl (External ''no browser''))
       (Inl (External ''not written''))\<close> "sample_options None None"]
      convert_outcomes [of \<open>sample_world True ''<svg width="10" height="10"/>'' (Inl (External ''no browser'')) (Inr ())\<close>
        "sample_options (Some (Fin 20)) None"]
      convert_outcomes [of \<open>sample_world True ''<svg/>'' (Inr \<lparr>width = Fin 10, height = Fin 10\<rparr>) (Inr ())\<close>
        "sample_options (Some (Fin 20)) None"]
    by (simp add: facts nf vo [unfolded sample_options_def] bg)
qed

end
